theory Spec2Isabelle
  imports
    Complex_Main
    "HOL-Library.Char_ord"
    "HOL-Library.List_Lexorder"
    "HOL-Library.Product_Lexorder"
    "HOL-Library.Option_ord"
    "HOL-Library.Multiset"
begin

section \<open>The ledger engine of budget\_tracker.py\<close>

text \<open>
  The script keeps two SQLite tables, \<^verbatim>\<open>categories\<close> and \<^verbatim>\<open>transactions\<close>, behind the
  class \<^verbatim>\<open>BudgetDB\<close>. The store is modelled as a record that every method takes and
  returns; each SQL statement of the source becomes the list operation it denotes.

  Modelling decisions, all of them about what lies below the Python text:
  \<^item> text is a \<^typ>\<open>string\<close> of ASCII characters; SQLite compares \<^verbatim>\<open>TEXT\<close> with the
    \<^verbatim>\<open>BINARY\<close> collation (byte by byte, a proper prefix first), which is the
    lexicographic order on \<^typ>\<open>char list\<close>;
  \<^item> row ids and category ids are \<^typ>\<open>int\<close>; values outside SQLite's 64-bit range are
    not modelled;
  \<^item> the \<^verbatim>\<open>REAL\<close> column \<^verbatim>\<open>amount\<close> is a \<^typ>\<open>real\<close>: finite values, exact sums
    (no rounding, no infinities, no NaN);
  \<^item> the connection runs with \<^verbatim>\<open>PRAGMA foreign_keys = ON\<close>, as \<^verbatim>\<open>__init__\<close> sets it, so
    the foreign key of \<^verbatim>\<open>transactions.category_id\<close> is checked on insert and its
    \<^verbatim>\<open>ON DELETE SET NULL\<close> action runs on delete.
\<close>

subsection \<open>Rows and the store\<close>

record category =
  cat_id :: int
  cat_name :: string

record txn =
  txn_id :: int
  date :: string
  amount :: real
  description :: string
  category_id :: "int option"
  txn_type :: string

text \<open>A column definition: name, declared type, and the column constraints as written.\<close>

record column =
  col_name :: string
  col_type :: string
  col_constraints :: "string list"

record table_def =
  columns :: "column list"
  table_constraints :: "string list"

text \<open>
  \<open>schema\<close> is the catalogue of tables that exist, in creation order. \<open>cat_seq\<close> and
  \<open>txn_seq\<close> are the two rows of \<^verbatim>\<open>sqlite_sequence\<close> that \<^verbatim>\<open>AUTOINCREMENT\<close> maintains:
  the largest row id ever handed out in each table (0 when there is none yet).
\<close>

record budget_db =
  schema :: "(string \<times> table_def) list"
  categories :: "category list"
  transactions :: "txn list"
  cat_seq :: int
  txn_seq :: int

datatype error = IntegrityError

subsection \<open>Python's \<^verbatim>\<open>str.strip\<close> and truth values\<close>

text \<open>The ASCII characters for which \<^verbatim>\<open>str.isspace\<close> holds: 9 to 13, 28 to 32.\<close>

definition is_space :: "char \<Rightarrow> bool" where
  "is_space c = (let n = (of_char c :: nat) in (9 \<le> n \<and> n \<le> 13) \<or> (28 \<le> n \<and> n \<le> 32))"

definition strip :: "string \<Rightarrow> string" where
  "strip s = rev (dropWhile is_space (rev (dropWhile is_space s)))"

text \<open>\<^verbatim>\<open>if category_id:\<close> on an \<^verbatim>\<open>Optional[int]\<close>, \<^verbatim>\<open>if start_date:\<close> on an \<^verbatim>\<open>Optional[str]\<close>.\<close>

fun truthy_int :: "int option \<Rightarrow> bool" where
  "truthy_int None = False"
| "truthy_int (Some i) = (i \<noteq> 0)"

fun truthy_str :: "string option \<Rightarrow> bool" where
  "truthy_str None = False"
| "truthy_str (Some s) = (s \<noteq> [])"

subsection \<open>Schema Manager\<close>

definition categories_def :: table_def where
  "categories_def =
     \<lparr>columns =
        [\<lparr>col_name = ''id'', col_type = ''INTEGER'',
          col_constraints = [''PRIMARY KEY'', ''AUTOINCREMENT'']\<rparr>,
         \<lparr>col_name = ''name'', col_type = ''TEXT'',
          col_constraints = [''UNIQUE'', ''NOT NULL'']\<rparr>],
      table_constraints = []\<rparr>"

definition transactions_def :: table_def where
  "transactions_def =
     \<lparr>columns =
        [\<lparr>col_name = ''id'', col_type = ''INTEGER'',
          col_constraints = [''PRIMARY KEY'', ''AUTOINCREMENT'']\<rparr>,
         \<lparr>col_name = ''date'', col_type = ''TEXT'', col_constraints = [''NOT NULL'']\<rparr>,
         \<lparr>col_name = ''amount'', col_type = ''REAL'', col_constraints = [''NOT NULL'']\<rparr>,
         \<lparr>col_name = ''description'', col_type = ''TEXT'', col_constraints = []\<rparr>,
         \<lparr>col_name = ''category_id'', col_type = ''INTEGER'', col_constraints = []\<rparr>,
         \<lparr>col_name = ''type'', col_type = ''TEXT'',
          col_constraints = [''NOT NULL'', ''CHECK(type IN (income,expense))'']\<rparr>],
      table_constraints =
        [''FOREIGN KEY(category_id) REFERENCES categories(id) ON DELETE SET NULL'']\<rparr>"

text \<open>\<^verbatim>\<open>CREATE TABLE IF NOT EXISTS name (...)\<close>: a no-op when the catalogue has the name.\<close>

definition create_table_if_not_exists ::
  "string \<Rightarrow> table_def \<Rightarrow> (string \<times> table_def) list \<Rightarrow> (string \<times> table_def) list" where
  "create_table_if_not_exists n d sch = (if n \<in> set (map fst sch) then sch else sch @ [(n, d)])"

definition initialize_schema :: "budget_db \<Rightarrow> budget_db" where
  "initialize_schema db =
     db\<lparr>schema :=
          create_table_if_not_exists ''transactions'' transactions_def
            (create_table_if_not_exists ''categories'' categories_def (schema db))\<rparr>"

text \<open>A database file that does not exist yet: \<^verbatim>\<open>sqlite3.connect\<close> creates it empty.\<close>

definition empty_db :: budget_db where
  "empty_db = \<lparr>schema = [], categories = [], transactions = [], cat_seq = 0, txn_seq = 0\<rparr>"

subsection \<open>Category Store\<close>

text \<open>
  The row id an \<^verbatim>\<open>INTEGER PRIMARY KEY AUTOINCREMENT\<close> insert receives: one more than the
  largest of the ids in the table and the table's \<^verbatim>\<open>sqlite_sequence\<close> entry.
\<close>

definition next_rowid :: "int \<Rightarrow> int list \<Rightarrow> int" where
  "next_rowid seq ids = fold max ids seq + 1"

text \<open>
  \<^verbatim>\<open>INSERT INTO categories (name) VALUES (?)\<close> with \<^verbatim>\<open>name.strip()\<close>. The \<^verbatim>\<open>UNIQUE\<close>
  constraint makes sqlite3 raise \<^verbatim>\<open>IntegrityError\<close> and leaves the table as it was.
\<close>

definition add_category :: "string \<Rightarrow> budget_db \<Rightarrow> (error + int) \<times> budget_db" where
  "add_category name db =
     (let n = strip name in
      if n \<in> set (map cat_name (categories db)) then (Inl IntegrityError, db)
      else
        let i = next_rowid (cat_seq db) (map cat_id (categories db)) in
        (Inr i, db\<lparr>categories := categories db @ [\<lparr>cat_id = i, cat_name = n\<rparr>], cat_seq := i\<rparr>))"

text \<open>
  \<^verbatim>\<open>DELETE FROM categories WHERE id = ?\<close>; \<^verbatim>\<open>cur.rowcount\<close> counts the category rows
  deleted. For each deleted parent row, \<^verbatim>\<open>ON DELETE SET NULL\<close> clears the
  \<^verbatim>\<open>category_id\<close> of the transactions that referred to it.
\<close>

definition delete_category :: "int \<Rightarrow> budget_db \<Rightarrow> bool \<times> budget_db" where
  "delete_category cid db =
     (let rowcount = length (filter (\<lambda>c. cat_id c = cid) (categories db)) in
      if rowcount > 0 then
        (True,
         db\<lparr>categories := filter (\<lambda>c. cat_id c \<noteq> cid) (categories db),
            transactions :=
              map (\<lambda>t. if category_id t = Some cid then t\<lparr>category_id := None\<rparr> else t)
                (transactions db)\<rparr>)
      else (False, db))"

text \<open>\<^verbatim>\<open>SELECT id, name FROM categories ORDER BY name\<close>.\<close>

definition list_categories :: "budget_db \<Rightarrow> (int \<times> string) list" where
  "list_categories db = map (\<lambda>c. (cat_id c, cat_name c)) (sort_key cat_name (categories db))"

subsection \<open>Transaction Store\<close>

text \<open>
  \<^verbatim>\<open>INSERT INTO transactions (date, amount, description, category_id, type)\<close>. Two
  constraints can reject the row with \<^verbatim>\<open>IntegrityError\<close>: the \<^verbatim>\<open>CHECK\<close> on \<^verbatim>\<open>type\<close>,
  and the foreign key when \<^verbatim>\<open>category_id\<close> is not null and names no category. Nothing
  looks at \<^verbatim>\<open>date\<close> or at the sign of \<^verbatim>\<open>amount\<close>.
\<close>

definition add_transaction ::
  "string \<Rightarrow> real \<Rightarrow> string \<Rightarrow> int option \<Rightarrow> string \<Rightarrow> budget_db \<Rightarrow> (error + int) \<times> budget_db" where
  "add_transaction d a descr cid ty db =
     (if ty \<notin> {''income'', ''expense''} then (Inl IntegrityError, db)
      else if (case cid of None \<Rightarrow> False | Some c \<Rightarrow> c \<notin> set (map cat_id (categories db)))
        then (Inl IntegrityError, db)
      else
        let i = next_rowid (txn_seq db) (map txn_id (transactions db)) in
        (Inr i,
         db\<lparr>transactions := transactions db @
               [\<lparr>txn_id = i, date = d, amount = a, description = strip descr,
                 category_id = cid, txn_type = ty\<rparr>],
            txn_seq := i\<rparr>))"

text \<open>\<^verbatim>\<open>DELETE FROM transactions WHERE id = ?\<close>.\<close>

definition delete_transaction :: "int \<Rightarrow> budget_db \<Rightarrow> bool \<times> budget_db" where
  "delete_transaction tid db =
     (let rowcount = length (filter (\<lambda>t. txn_id t = tid) (transactions db)) in
      if rowcount > 0
      then (True, db\<lparr>transactions := filter (\<lambda>t. txn_id t \<noteq> tid) (transactions db)\<rparr>)
      else (False, db))"

text \<open>
  \<open>list_transactions\<close> collects one \<^verbatim>\<open>WHERE\<close> clause per argument that is true in
  Python's sense, joins them with \<^verbatim>\<open>AND\<close>, and orders by \<^verbatim>\<open>date DESC, id DESC\<close>. A
  clause is modelled as the predicate on rows it denotes; \<^verbatim>\<open>category_id = ?\<close> is never
  true of a row whose \<^verbatim>\<open>category_id\<close> is null.
\<close>

definition where_clauses :: "int option \<Rightarrow> string option \<Rightarrow> string option \<Rightarrow> (txn \<Rightarrow> bool) list" where
  "where_clauses cid start_date end_date =
     (if truthy_int cid then [\<lambda>t. category_id t = cid] else []) @
     (if truthy_str start_date then [\<lambda>t. date t \<ge> the start_date] else []) @
     (if truthy_str end_date then [\<lambda>t. date t \<le> the end_date] else [])"

definition order_key :: "txn \<Rightarrow> string \<times> int" where
  "order_key t = (date t, txn_id t)"

definition list_transactions ::
  "int option \<Rightarrow> string option \<Rightarrow> string option \<Rightarrow> budget_db \<Rightarrow> txn list" where
  "list_transactions cid start_date end_date db =
     rev (sort_key order_key
       (filter (\<lambda>t. list_all (\<lambda>clause. clause t) (where_clauses cid start_date end_date))
          (transactions db)))"

subsection \<open>Report Engine\<close>

text \<open>
  Python's format specification \<^verbatim>\<open>0wd\<close>, as in \<^verbatim>\<open>f"{year:04d}"\<close>: the decimal digits,
  padded with zeros to at least \<open>w\<close> characters, a minus sign counted in the width.
\<close>

definition digit_char :: "nat \<Rightarrow> char" where
  "digit_char n = ''0123456789'' ! n"

fun dec :: "nat \<Rightarrow> string" where
  "dec n = (if n < 10 then [digit_char n] else dec (n div 10) @ [digit_char (n mod 10)])"

declare dec.simps [simp del]

definition zero_pad :: "nat \<Rightarrow> string \<Rightarrow> string" where
  "zero_pad w s = replicate (w - length s) (CHR ''0'') @ s"

definition format_d :: "nat \<Rightarrow> int \<Rightarrow> string" where
  "format_d w i =
     (if i < 0 then CHR ''-'' # zero_pad (w - 1) (dec (nat (- i))) else zero_pad w (dec (nat i)))"

text \<open>The two bounds \<^verbatim>\<open>start\<close> and \<^verbatim>\<open>end\<close> that \<open>monthly_summary\<close> passes to its query.\<close>

definition month_bounds :: "int \<Rightarrow> int \<Rightarrow> string \<times> string" where
  "month_bounds year month =
     (let start = format_d 4 year @ ''-'' @ format_d 2 month @ ''-01'';
          (end_year, end_month) = (if month = 12 then (year + 1, 1) else (year, month + 1))
      in (start, format_d 4 end_year @ ''-'' @ format_d 2 end_month @ ''-01''))"

text \<open>
  \<^verbatim>\<open>FROM transactions t LEFT JOIN categories c ON t.category_id = c.id\<close>: every
  transaction is paired with the name of each category whose id it carries, or with
  null when there is none (the reference is null, or it names no category).
\<close>

definition left_join_name :: "category list \<Rightarrow> txn \<Rightarrow> string option list" where
  "left_join_name cats t =
     (case filter (\<lambda>c. category_id t = Some (cat_id c)) cats of
        [] \<Rightarrow> [None]
      | c # cs \<Rightarrow> map (\<lambda>c. Some (cat_name c)) (c # cs))"

definition joined_rows :: "budget_db \<Rightarrow> (string option \<times> txn) list" where
  "joined_rows db =
     concat (map (\<lambda>t. map (\<lambda>n. (n, t)) (left_join_name (categories db) t)) (transactions db))"

text \<open>
  \<^verbatim>\<open>WHERE t.date >= ? AND t.date < ?\<close> on the joined rows, \<^verbatim>\<open>GROUP BY c.name\<close> (null is a
  group of its own), and per group the two \<^verbatim>\<open>SUM(CASE WHEN t.type = ... THEN t.amount
  ELSE 0 END)\<close>. A null name is \<open>None\<close>; \<open>monthly_summary_flow\<close> prints it as
  "(uncategorized)". SQL leaves the order of the groups open; the model lists them by
  name, null first, and no theorem below depends on it.
\<close>

definition sum_of_type :: "string \<Rightarrow> (string option \<times> txn) list \<Rightarrow> real" where
  "sum_of_type ty rows = sum_list (map (\<lambda>(n, t). if txn_type t = ty then amount t else 0) rows)"

definition monthly_rows :: "int \<Rightarrow> int \<Rightarrow> budget_db \<Rightarrow> (string option \<times> txn) list" where
  "monthly_rows year month db =
     (let (start, end_s) = month_bounds year month
      in filter (\<lambda>(n, t). date t \<ge> start \<and> date t < end_s) (joined_rows db))"

definition monthly_summary :: "int \<Rightarrow> int \<Rightarrow> budget_db \<Rightarrow> (string option \<times> real \<times> real) list" where
  "monthly_summary year month db =
     (let rows = monthly_rows year month db
      in map (\<lambda>g. let grp = filter (\<lambda>(n, t). n = g) rows
                   in (g, sum_of_type ''income'' grp, sum_of_type ''expense'' grp))
           (sort (remdups (map fst rows))))"

subsection \<open>Exporter\<close>

text \<open>
  What \<open>export_to_csv\<close> hands to \<^verbatim>\<open>csv.writer\<close>: the header, then the rows of
  \<open>list_transactions\<close> as they are. A file is the sequence of records written to it,
  each a sequence of Python values; \<^verbatim>\<open>open(filename, "w")\<close> replaces what the file held.
\<close>

datatype cell = PyInt int | PyStr string | PyFloat real | PyNone

type_synonym csv_file = "cell list list"

definition csv_header :: "cell list" where
  "csv_header = [PyStr ''ID'', PyStr ''Date'', PyStr ''Amount'', PyStr ''Description'',
                 PyStr ''CategoryID'', PyStr ''Type'']"

definition row_cells :: "txn \<Rightarrow> cell list" where
  "row_cells t =
     [PyInt (txn_id t), PyStr (date t), PyFloat (amount t), PyStr (description t),
      (case category_id t of None \<Rightarrow> PyNone | Some c \<Rightarrow> PyInt c), PyStr (txn_type t)]"

definition export_to_csv ::
  "string \<Rightarrow> int option \<Rightarrow> string option \<Rightarrow> string option \<Rightarrow> budget_db \<Rightarrow>
   (string \<rightharpoonup> csv_file) \<Rightarrow> (string \<rightharpoonup> csv_file)" where
  "export_to_csv filename cid start_date end_date db files =
     (let rows = list_transactions cid start_date end_date db
      in files(filename \<mapsto> csv_header # map row_cells rows))"

subsection \<open>Reading a date: \<^verbatim>\<open>datetime.strptime(s, "%Y-%m-%d")\<close>\<close>

text \<open>
  \<^verbatim>\<open>strptime\<close> matches the text against the regular expression
  \<^verbatim>\<open>(?P<Y>\d\d\d\d)-(?P<m>1[0-2]|0[1-9]|[1-9])-(?P<d>3[0-1]|[1-2]\d|0[1-9]|[1-9]| [1-9])\<close>,
  raises \<^verbatim>\<open>ValueError\<close> when the match fails or leaves text over, and then builds the
  date, which raises \<^verbatim>\<open>ValueError\<close> for the year 0 and for a day the month does not
  have. \<open>None\<close> is the \<^verbatim>\<open>ValueError\<close>. The month is the text up to the second hyphen
  and the day is all the text after it, since no alternative of either group contains
  a hyphen and the match has to use up the text.
\<close>

definition is_digit :: "char \<Rightarrow> bool" where
  "is_digit c = (c \<in> set ''0123456789'')"

definition digit_val :: "char \<Rightarrow> nat" where
  "digit_val c = of_char c - 48"

definition match_month :: "string \<Rightarrow> nat option" where
  "match_month s =
     (case s of
        [a] \<Rightarrow> if a \<in> set ''123456789'' then Some (digit_val a) else None
      | [a, b] \<Rightarrow>
          if (a = CHR ''1'' \<and> b \<in> set ''012'') \<or> (a = CHR ''0'' \<and> b \<in> set ''123456789'')
          then Some (10 * digit_val a + digit_val b) else None
      | _ \<Rightarrow> None)"

definition match_day :: "string \<Rightarrow> nat option" where
  "match_day s =
     (case s of
        [a] \<Rightarrow> if a \<in> set ''123456789'' then Some (digit_val a) else None
      | [a, b] \<Rightarrow>
          if (a = CHR ''3'' \<and> b \<in> set ''01'') \<or> (a \<in> set ''12'' \<and> is_digit b) \<or>
             (a = CHR ''0'' \<and> b \<in> set ''123456789'')
          then Some (10 * digit_val a + digit_val b)
          else if a = CHR '' '' \<and> b \<in> set ''123456789'' then Some (digit_val b)
          else None
      | _ \<Rightarrow> None)"

definition is_leap :: "nat \<Rightarrow> bool" where
  "is_leap y = (y mod 4 = 0 \<and> (y mod 100 \<noteq> 0 \<or> y mod 400 = 0))"

definition days_in_month :: "nat \<Rightarrow> nat \<Rightarrow> nat" where
  "days_in_month y m =
     (if m = 2 then (if is_leap y then 29 else 28)
      else if m \<in> {4, 6, 9, 11} then 30 else 31)"

definition strptime_ymd :: "string \<Rightarrow> (nat \<times> nat \<times> nat) option" where
  "strptime_ymd s =
     (case s of
        y1 # y2 # y3 # y4 # sep # rest \<Rightarrow>
          if is_digit y1 \<and> is_digit y2 \<and> is_digit y3 \<and> is_digit y4 \<and> sep = CHR ''-'' then
            (case dropWhile (\<lambda>c. c \<noteq> CHR ''-'') rest of
               [] \<Rightarrow> None
             | _ # day_s \<Rightarrow>
                 (case (match_month (takeWhile (\<lambda>c. c \<noteq> CHR ''-'') rest), match_day day_s) of
                    (Some m, Some d) \<Rightarrow>
                      let y = 1000 * digit_val y1 + 100 * digit_val y2 + 10 * digit_val y3
                              + digit_val y4
                      in if 1 \<le> y \<and> d \<le> days_in_month y m then Some (y, m, d) else None
                  | _ \<Rightarrow> None))
          else None
      | _ \<Rightarrow> None)"

text \<open>\<^verbatim>\<open>date.isoformat()\<close>: \<^verbatim>\<open>"%04d-%02d-%02d" % (year, month, day)\<close>.\<close>

definition isoformat :: "nat \<times> nat \<times> nat \<Rightarrow> string" where
  "isoformat ymd =
     (case ymd of (y, m, d) \<Rightarrow>
        format_d 4 (int y) @ ''-'' @ format_d 2 (int m) @ ''-'' @ format_d 2 (int d))"

subsection \<open>The interactive flows\<close>

text \<open>
  Each flow reads its answers with \<open>prompt\<close>, which strips them, and prints what
  happened. The answers are arguments of the model and the printed message is the
  \<open>report\<close> it returns with the store. A text that the flow converts with \<^verbatim>\<open>float\<close> or
  \<^verbatim>\<open>int\<close> is given by the outcome of the conversion: \<open>None\<close> (or \<open>NotANumber\<close>) when it
  raises \<^verbatim>\<open>ValueError\<close>. An exception no flow catches ends the program: \<open>Uncaught\<close>.
\<close>

datatype report =
    CategoryAdded int
  | CategoryNameEmpty
  | CategoryExists
  | InvalidId
  | CategoryDeleted
  | CategoryNotFound
  | InvalidDate
  | InvalidAmount
  | InvalidCategoryId
  | TransactionRecorded int
  | TransactionDeleted
  | TransactionNotFound
  | Uncaught error

text \<open>The answer to "Enter category ID or leave blank for uncategorized".\<close>

datatype cat_entry = Blank | NotANumber | Number int

definition prompt :: "string \<Rightarrow> string" where
  "prompt typed = strip typed"

definition add_category_flow :: "string \<Rightarrow> budget_db \<Rightarrow> report \<times> budget_db" where
  "add_category_flow typed db =
     (let name = prompt typed in
      if name = [] then (CategoryNameEmpty, db)
      else (case add_category name db of
              (Inr cid, db') \<Rightarrow> (CategoryAdded cid, db')
            | (Inl IntegrityError, db') \<Rightarrow> (CategoryExists, db')))"

definition delete_category_flow :: "int option \<Rightarrow> budget_db \<Rightarrow> report \<times> budget_db" where
  "delete_category_flow typed db =
     (case typed of
        None \<Rightarrow> (InvalidId, db)
      | Some cid \<Rightarrow>
          (case delete_category cid db of
             (True, db') \<Rightarrow> (CategoryDeleted, db')
           | (False, db') \<Rightarrow> (CategoryNotFound, db')))"

definition add_transaction_flow ::
  "string \<Rightarrow> real option \<Rightarrow> string \<Rightarrow> cat_entry \<Rightarrow> budget_db \<Rightarrow> report \<times> budget_db" where
  "add_transaction_flow typed_date typed_amount typed_description cat_input db =
     (let date_str = prompt typed_date in
      case strptime_ymd date_str of
        None \<Rightarrow> (InvalidDate, db)
      | Some date_obj \<Rightarrow>
          let date_iso = isoformat date_obj in
          (case typed_amount of
             None \<Rightarrow> (InvalidAmount, db)
           | Some amnt \<Rightarrow>
               let descr = prompt typed_description;
                   ty = (if amnt \<ge> 0 then ''income'' else ''expense'');
                   abs_amount = \<bar>amnt\<bar>
               in (case cat_input of
                     NotANumber \<Rightarrow> (InvalidCategoryId, db)
                   | _ \<Rightarrow>
                       let cid = (case cat_input of Number c \<Rightarrow> Some c | _ \<Rightarrow> None) in
                       (case add_transaction date_iso abs_amount descr cid ty db of
                          (Inr tid, db') \<Rightarrow> (TransactionRecorded tid, db')
                        | (Inl e, db') \<Rightarrow> (Uncaught e, db')))))"

definition delete_transaction_flow :: "int option \<Rightarrow> budget_db \<Rightarrow> report \<times> budget_db" where
  "delete_transaction_flow typed db =
     (case typed of
        None \<Rightarrow> (InvalidId, db)
      | Some tid \<Rightarrow>
          (case delete_transaction tid db of
             (True, db') \<Rightarrow> (TransactionDeleted, db')
           | (False, db') \<Rightarrow> (TransactionNotFound, db')))"

text \<open>
  The menu loop of \<open>main\<close> over the choices that write to the store (1 to 4); the
  listing, summary and export choices only read it. The loop ends with the input, or
  with the first exception that reaches it.
\<close>

datatype choice =
    AddCategory string
  | DeleteCategory "int option"
  | AddTransaction string "real option" string cat_entry
  | DeleteTransaction "int option"
  | ReadOnly

fun run_choice :: "choice \<Rightarrow> budget_db \<Rightarrow> report option \<times> budget_db" where
  "run_choice (AddCategory n) db = map_prod Some id (add_category_flow n db)"
| "run_choice (DeleteCategory c) db = map_prod Some id (delete_category_flow c db)"
| "run_choice (AddTransaction d a ds c) db = map_prod Some id (add_transaction_flow d a ds c db)"
| "run_choice (DeleteTransaction t) db = map_prod Some id (delete_transaction_flow t db)"
| "run_choice ReadOnly db = (None, db)"

fun main :: "choice list \<Rightarrow> budget_db \<Rightarrow> budget_db" where
  "main [] db = db"
| "main (c # cs) db =
     (case run_choice c db of
        (Some (Uncaught e), db') \<Rightarrow> db'
      | (_, db') \<Rightarrow> main cs db')"

subsection \<open>Auxiliary notions for the statements\<close>

text \<open>What \<^verbatim>\<open>ON DELETE SET NULL\<close> does to one transaction when category \<open>cid\<close> goes.\<close>

definition clear_category :: "int \<Rightarrow> txn \<Rightarrow> txn" where
  "clear_category cid t = (if category_id t = Some cid then t\<lparr>category_id := None\<rparr> else t)"

text \<open>
  The scenario of the specification: a fresh store, the category "Food", and the
  expense of 42.50 entered on 2024-03-15 as a negative amount.
\<close>

definition fresh_db :: budget_db where
  "fresh_db = initialize_schema empty_db"

definition food_db :: budget_db where
  "food_db = main [AddCategory '' Food ''] fresh_db"

definition groceries_db :: budget_db where
  "groceries_db =
     main [AddTransaction ''2024-03-15'' (Some (- 42.5)) ''Groceries'' (Number 1)] food_db"

definition groceries :: txn where
  "groceries = \<lparr>txn_id = 1, date = ''2024-03-15'', amount = 42.5, description = ''Groceries'',
                 category_id = Some 1, txn_type = ''expense''\<rparr>"




text \<open>The invariant of the amount column: every stored amount is a magnitude.\<close>

definition amounts_nonneg :: "budget_db \<Rightarrow> bool" where
  "amounts_nonneg db = (\<forall>t \<in> set (transactions db). 0 \<le> amount t)"

text \<open>
  The report in the words of the specification. The resolved category name of a
  transaction is \<open>None\<close> ("uncategorized") when its reference is null or names no
  category. A stored date that is the ISO 8601 text of a calendar date denotes that
  date, and a transaction is of the month \<open>(year, month)\<close> when its date denotes a day
  of that month of that year; nothing in these notions refers to the bounds the code
  computes. A total adds the amounts of one type, and the row of a group holds the two
  totals of the transactions that resolve to the group's name.
\<close>

definition resolved_name :: "budget_db \<Rightarrow> txn \<Rightarrow> string option" where
  "resolved_name db t =
     (case category_id t of
        None \<Rightarrow> None
      | Some c \<Rightarrow> map_option cat_name (find (\<lambda>k. cat_id k = c) (categories db)))"

definition iso_date :: "string \<Rightarrow> (nat \<times> nat \<times> nat) option" where
  "iso_date s =
     (case strptime_ymd s of
        None \<Rightarrow> None
      | Some ymd \<Rightarrow> if isoformat ymd = s then Some ymd else None)"

definition in_calendar_month :: "int \<Rightarrow> int \<Rightarrow> txn \<Rightarrow> bool" where
  "in_calendar_month year month t =
     (case iso_date (date t) of
        None \<Rightarrow> False
      | Some (y, m, d) \<Rightarrow> int y = year \<and> int m = month)"

definition calendar_month_txns :: "int \<Rightarrow> int \<Rightarrow> budget_db \<Rightarrow> txn list" where
  "calendar_month_txns year month db = filter (in_calendar_month year month) (transactions db)"

text \<open>Every stored date is the ISO text of a calendar date.\<close>

definition iso_dates :: "budget_db \<Rightarrow> bool" where
  "iso_dates db = (\<forall>t \<in> set (transactions db). iso_date (date t) \<noteq> None)"

definition total :: "string \<Rightarrow> txn list \<Rightarrow> real" where
  "total ty ts = sum_list (map amount (filter (\<lambda>t. txn_type t = ty) ts))"

definition group_row :: "budget_db \<Rightarrow> txn list \<Rightarrow> string option \<Rightarrow> string option \<times> real \<times> real" where
  "group_row db ts g =
     (g, total ''income'' (filter (\<lambda>t. resolved_name db t = g) ts),
         total ''expense'' (filter (\<lambda>t. resolved_name db t = g) ts))"

text \<open>
  The \<^verbatim>\<open>WHERE\<close> clause of the summary query on one transaction: its date lies, as
  text, between the two bounds that \<open>month_bounds\<close> computes. This is the test the code
  makes, used below to relate it to the calendar.
\<close>

definition in_bounds :: "int \<Rightarrow> int \<Rightarrow> txn \<Rightarrow> bool" where
  "in_bounds year month t =
     (fst (month_bounds year month) \<le> date t \<and> date t < snd (month_bounds year month))"

definition bounded_txns :: "int \<Rightarrow> int \<Rightarrow> budget_db \<Rightarrow> txn list" where
  "bounded_txns year month db = filter (in_bounds year month) (transactions db)"

text \<open>
  The last \<open>w\<close> decimal digits of \<open>n\<close>, most significant first: what zero-padded
  formatting to width \<open>w\<close> gives for a number below \<open>10 ^ w\<close>.
\<close>

fun fixed_width :: "nat \<Rightarrow> nat \<Rightarrow> string" where
  "fixed_width 0 n = []"
| "fixed_width (Suc w) n = fixed_width w (n div 10) @ [digit_char (n mod 10)]"

text \<open>
  A store with one transaction, entered for the last day of the year 9999, and the
  row it holds.
\<close>

definition last_december_db :: budget_db where
  "last_december_db =
     main [AddTransaction ''9999-12-31'' (Some (- 10)) ''Fireworks'' Blank] fresh_db"

definition fireworks :: txn where
  "fireworks = \<lparr>txn_id = 1, date = ''9999-12-31'', amount = 10, description = ''Fireworks'',
                 category_id = None, txn_type = ''expense''\<rparr>"

section \<open>Properties\<close>

subsection \<open>Schema Manager: initialising twice\<close>

lemma create_table_names:
  "set (map fst (create_table_if_not_exists n d sch)) = insert n (set (map fst sch))"
  by (auto simp add: create_table_if_not_exists_def)

lemma create_table_prefix:
  "take (length sch) (create_table_if_not_exists n d sch) = sch"
  by (simp add: create_table_if_not_exists_def)

lemma create_table_length:
  "length sch \<le> length (create_table_if_not_exists n d sch)"
  by (simp add: create_table_if_not_exists_def)

lemma schema_initialize_twice:
  "schema (initialize_schema (initialize_schema db)) = schema (initialize_schema db)"
proof -
  let ?s1 = "create_table_if_not_exists ''categories'' categories_def (schema db)"
  let ?s2 = "create_table_if_not_exists ''transactions'' transactions_def ?s1"
  have "''categories'' \<in> set (map fst ?s2)" "''transactions'' \<in> set (map fst ?s2)"
    by (simp_all only: create_table_names insert_iff simp_thms)
  then have "create_table_if_not_exists ''transactions'' transactions_def
          (create_table_if_not_exists ''categories'' categories_def ?s2) = ?s2"
    by (simp add: create_table_if_not_exists_def)
  then show ?thesis by (simp add: initialize_schema_def)
qed

lemma schema_initialize_prefix:
  "take (length (schema db)) (schema (initialize_schema db)) = schema db"
proof -
  let ?s1 = "create_table_if_not_exists ''categories'' categories_def (schema db)"
  let ?s2 = "create_table_if_not_exists ''transactions'' transactions_def ?s1"
  have "take (length (schema db)) ?s2 = take (length (schema db)) (take (length ?s1) ?s2)"
    using create_table_length [of "schema db" "''categories''" categories_def]
    by (simp add: min_def)
  also have "\<dots> = schema db"
    by (simp only: create_table_prefix)
  finally show ?thesis by (simp add: initialize_schema_def)
qed

text \<open>
  C9. \<open>initialize_schema\<close> is idempotent: a second call returns the store the first
  call returned, table definitions included. No call touches a definition that was
  already in the catalogue (the old catalogue is a prefix of the new one), the rows of
  either table, or the id sequences.
\<close>

theorem initialize_schema_idempotent:
  "initialize_schema (initialize_schema db) = initialize_schema db \<and>
   take (length (schema db)) (schema (initialize_schema db)) = schema db \<and>
   categories (initialize_schema db) = categories db \<and>
   transactions (initialize_schema db) = transactions db \<and>
   cat_seq (initialize_schema db) = cat_seq db \<and>
   txn_seq (initialize_schema db) = txn_seq db"
proof -
  have "initialize_schema (initialize_schema db) = initialize_schema db"
    using schema_initialize_twice [of db]
    by (simp add: initialize_schema_def)
  moreover have "categories (initialize_schema db) = categories db"
    "transactions (initialize_schema db) = transactions db"
    "cat_seq (initialize_schema db) = cat_seq db"
    "txn_seq (initialize_schema db) = txn_seq db"
    by (simp_all add: initialize_schema_def)
  ultimately show ?thesis
    using schema_initialize_prefix [of db] by simp
qed

subsection \<open>Filters that Python counts as false\<close>

lemma where_clauses_zero: "where_clauses (Some 0) s e = where_clauses None s e"
  by (simp add: where_clauses_def)

lemma where_clauses_empty_start: "where_clauses c (Some []) e = where_clauses c None e"
  by (simp add: where_clauses_def)

lemma where_clauses_empty_end: "where_clauses c s (Some []) = where_clauses c s None"
  by (simp add: where_clauses_def)

text \<open>
  C10. A category filter of 0 and a start or end date that is the empty string add no
  \<^verbatim>\<open>WHERE\<close> clause: \<open>list_transactions\<close>, and \<open>export_to_csv\<close> with it, return what they
  return when that argument is absent, whatever the other two arguments are.
\<close>

theorem falsy_filter_is_absent:
  "list_transactions (Some 0) s e db = list_transactions None s e db \<and>
   list_transactions c (Some '''') e db = list_transactions c None e db \<and>
   list_transactions c s (Some '''') db = list_transactions c s None db \<and>
   export_to_csv f (Some 0) s e db files = export_to_csv f None s e db files \<and>
   export_to_csv f c (Some '''') e db files = export_to_csv f c None e db files \<and>
   export_to_csv f c s (Some '''') db files = export_to_csv f c s None db files"
  by (simp add: list_transactions_def export_to_csv_def where_clauses_zero
      where_clauses_empty_start where_clauses_empty_end)

subsection \<open>Exporter\<close>

lemma row_cells_inj: "row_cells t = row_cells u \<Longrightarrow> t = u"
  by (cases t; cases u) (auto simp add: row_cells_def split: option.splits)

text \<open>
  C3. For every filter combination, the file \<open>export_to_csv\<close> writes holds the header
  record ID, Date, Amount, Description, CategoryID, Type and then one record per row of
  \<open>list_transactions\<close> under the same filters, in the same order, with the six stored
  values of the row (the category id as stored, the amount as stored); distinct rows
  give distinct records. When the listing is empty the file holds the header alone.
\<close>

theorem export_follows_listing:
  "export_to_csv f c s e db files f =
     Some (csv_header # map row_cells (list_transactions c s e db)) \<and>
   csv_header = map PyStr [''ID'', ''Date'', ''Amount'', ''Description'', ''CategoryID'', ''Type''] \<and>
   inj row_cells \<and>
   (list_transactions c s e db = [] \<longrightarrow> export_to_csv f c s e db files f = Some [csv_header])"
proof (intro conjI impI)
  show written: "export_to_csv f c s e db files f =
      Some (csv_header # map row_cells (list_transactions c s e db))"
    by (simp add: export_to_csv_def)
  show "csv_header =
      map PyStr [''ID'', ''Date'', ''Amount'', ''Description'', ''CategoryID'', ''Type'']"
    by (simp add: csv_header_def)
  show "inj row_cells"
    by (rule injI) (rule row_cells_inj)
  assume "list_transactions c s e db = []"
  then show "export_to_csv f c s e db files f = Some [csv_header]"
    by (simp add: written)
qed

theorem export_follows_listing_witness:
  "list_transactions (Some 2) None None groceries_db = [] \<and>
   export_to_csv ''report.csv'' (Some 2) None None groceries_db Map.empty ''report.csv'' =
     Some [csv_header] \<and>
   export_to_csv ''report.csv'' None None None groceries_db Map.empty ''report.csv'' =
     Some [csv_header,
           [PyInt 1, PyStr ''2024-03-15'', PyFloat 42.5, PyStr ''Groceries'', PyInt 1,
            PyStr ''expense'']]"
proof -
  have empty: "list_transactions (Some 2) None None groceries_db = []"
    by code_simp
  have one: "map row_cells (list_transactions None None None groceries_db) =
      [[PyInt 1, PyStr ''2024-03-15'', PyFloat 42.5, PyStr ''Groceries'', PyInt 1,
        PyStr ''expense'']]"
    by code_simp
  show ?thesis
    using empty one
      export_follows_listing [of "''report.csv''" "Some 2" None None groceries_db Map.empty]
      export_follows_listing [of "''report.csv''" None None None groceries_db Map.empty]
    by simp
qed

subsection \<open>Deleting a category\<close>

lemma insort_key_map_same:
  assumes "\<And>x. k (f x) = k x"
  shows "insort_key k (f a) (map f xs) = map f (insort_key k a xs)"
  by (induction xs) (simp_all add: assms)

lemma sort_key_map_same:
  assumes "\<And>x. k (f x) = k x"
  shows "sort_key k (map f xs) = map f (sort_key k xs)"
  by (induction xs) (simp_all add: insort_key_map_same [of k f, OF assms])

lemma order_key_clear: "order_key (clear_category c t) = order_key t"
  by (simp add: order_key_def clear_category_def)

lemma list_all_transactions:
  "list_transactions None None None db = rev (sort_key order_key (transactions db))"
  by (simp add: list_transactions_def where_clauses_def)

lemma delete_category_True:
  assumes "delete_category c db = (True, db')"
  shows "transactions db' = map (clear_category c) (transactions db)"
    and "categories db' = filter (\<lambda>k. cat_id k \<noteq> c) (categories db)"
  using assms
  by (auto simp add: delete_category_def Let_def clear_category_def split: if_splits)

lemma listing_after_delete_category:
  assumes "delete_category c db = (True, db')"
  shows "list_transactions None None None db' =
         map (clear_category c) (list_transactions None None None db)"
  by (simp add: list_all_transactions delete_category_True(1) [OF assms]
      sort_key_map_same [of order_key, OF order_key_clear] rev_map)

text \<open>
  C2. When \<open>delete_category c\<close> returns true, a transaction \<open>t\<close> that carried category
  \<open>c\<close> is still listed, now with a null category and otherwise as it was; the listing
  has lost no row: it has the same length and the same ids in the same order.
\<close>

theorem delete_category_sets_null:
  assumes "delete_category c db = (True, db')"
    and "t \<in> set (list_transactions None None None db)"
    and "category_id t = Some c"
  shows "t\<lparr>category_id := None\<rparr> \<in> set (list_transactions None None None db') \<and>
         length (list_transactions None None None db') =
           length (list_transactions None None None db) \<and>
         map txn_id (list_transactions None None None db') =
           map txn_id (list_transactions None None None db)"
proof -
  note eq = listing_after_delete_category [OF assms(1)]
  have "clear_category c t \<in> set (list_transactions None None None db')"
    using assms(2) by (simp add: eq)
  moreover have "clear_category c t = t\<lparr>category_id := None\<rparr>"
    using assms(3) by (simp add: clear_category_def)
  moreover have "txn_id \<circ> clear_category c = txn_id"
    by (rule ext) (simp add: clear_category_def)
  ultimately show ?thesis
    by (simp add: eq)
qed

theorem delete_category_sets_null_witness:
  "fst (delete_category 1 groceries_db) = True \<and>
   list_transactions None None None groceries_db = [groceries] \<and>
   category_id groceries = Some 1 \<and>
   list_transactions None None None (snd (delete_category 1 groceries_db)) =
     [groceries\<lparr>category_id := None\<rparr>]"
proof -
  have del: "delete_category 1 groceries_db = (True, snd (delete_category 1 groceries_db))"
    by code_simp
  have before: "list_transactions None None None groceries_db = [groceries]"
    by code_simp
  have cat: "category_id groceries = Some 1"
    by (simp add: groceries_def)
  have "groceries \<in> set (list_transactions None None None groceries_db)"
    by (simp add: before)
  from delete_category_sets_null [OF del this cat]
  have "groceries\<lparr>category_id := None\<rparr> \<in>
          set (list_transactions None None None (snd (delete_category 1 groceries_db)))"
    and "length (list_transactions None None None (snd (delete_category 1 groceries_db))) = 1"
    by (simp_all add: before)
  then have "list_transactions None None None (snd (delete_category 1 groceries_db)) =
      [groceries\<lparr>category_id := None\<rparr>]"
    by (cases "list_transactions None None None (snd (delete_category 1 groceries_db))") auto
  moreover have "fst (delete_category 1 groceries_db) = True"
    by (subst del) simp
  ultimately show ?thesis
    using before cat by (simp only: simp_thms)
qed

subsection \<open>Adding a category\<close>

lemma fold_max_ge_seq: "(seq::int) \<le> fold max ids seq"
proof (induction ids arbitrary: seq)
  case Nil
  show ?case by simp
next
  case (Cons i ids)
  have "seq \<le> max i seq" by simp
  also have "\<dots> \<le> fold max ids (max i seq)" by (rule Cons.IH)
  finally show ?case by simp
qed

lemma fold_max_ge_member: "(i::int) \<in> set ids \<Longrightarrow> i \<le> fold max ids seq"
proof (induction ids arbitrary: seq)
  case Nil
  then show ?case by simp
next
  case (Cons j ids)
  show ?case
  proof (cases "i = j")
    case True
    have "i \<le> max j seq" using True by simp
    also have "\<dots> \<le> fold max ids (max j seq)" by (rule fold_max_ge_seq)
    finally show ?thesis by simp
  next
    case False
    with Cons.prems have "i \<in> set ids" by simp
    then show ?thesis using Cons.IH by simp
  qed
qed

lemma next_rowid_fresh: "next_rowid seq ids \<notin> set ids"
proof
  assume "next_rowid seq ids \<in> set ids"
  then have "next_rowid seq ids \<le> fold max ids seq" by (rule fold_max_ge_member)
  then show False by (simp add: next_rowid_def)
qed

lemma next_rowid_above: "seq < next_rowid seq ids"
  using fold_max_ge_seq [of seq ids] by (simp add: next_rowid_def)

lemma add_category_new:
  assumes "strip n \<notin> set (map cat_name (categories db))"
  shows "add_category n db =
         (Inr (next_rowid (cat_seq db) (map cat_id (categories db))),
          db\<lparr>categories := categories db @
                [\<lparr>cat_id = next_rowid (cat_seq db) (map cat_id (categories db)),
                  cat_name = strip n\<rparr>],
             cat_seq := next_rowid (cat_seq db) (map cat_id (categories db))\<rparr>)"
  using assms by (simp add: add_category_def Let_def)

lemma add_category_duplicate:
  assumes "strip n \<in> set (map cat_name (categories db))"
  shows "add_category n db = (Inl IntegrityError, db)"
  using assms by (simp add: add_category_def Let_def)

lemma names_of_listing:
  "mset (map snd (list_categories db)) = mset (map cat_name (categories db))"
proof -
  have "map snd (list_categories db) = map cat_name (sort_key cat_name (categories db))"
    by (simp add: list_categories_def comp_def)
  then show ?thesis
    by simp
qed

lemma count_names_of_listing:
  "count_list (map snd (list_categories db)) x = count_list (map cat_name (categories db)) x"
  using names_of_listing [of db] by (metis count_mset)

text \<open>
  C6. For a name whose trimmed form is not yet a category, \<open>add_category\<close> stores the
  trimmed name under an id that no category has and that is above every id handed out
  before; \<open>list_categories\<close> then shows that name exactly once, under that id. Adding the
  same name again raises \<^verbatim>\<open>IntegrityError\<close> (the duplicate-category error) and leaves the
  store, and so the listing, as it was.
\<close>

theorem add_category_then_duplicate:
  assumes "strip n \<notin> set (map cat_name (categories db))"
  shows "\<exists>i db'. add_category n db = (Inr i, db') \<and>
           i \<notin> set (map cat_id (categories db)) \<and> cat_seq db < i \<and>
           (i, strip n) \<in> set (list_categories db') \<and>
           count_list (map snd (list_categories db')) (strip n) = 1 \<and>
           add_category n db' = (Inl IntegrityError, db') \<and>
           list_categories (snd (add_category n db')) = list_categories db'"
proof -
  let ?i = "next_rowid (cat_seq db) (map cat_id (categories db))"
  let ?db' = "db\<lparr>categories := categories db @ [\<lparr>cat_id = ?i, cat_name = strip n\<rparr>],
                 cat_seq := ?i\<rparr>"
  have add: "add_category n db = (Inr ?i, ?db')"
    by (rule add_category_new [OF assms])
  have fresh: "?i \<notin> set (map cat_id (categories db))" "cat_seq db < ?i"
    by (rule next_rowid_fresh, rule next_rowid_above)
  have "count_list (map cat_name (categories db)) (strip n) = 0"
    using assms by (simp add: count_list_0_iff)
  then have once: "count_list (map snd (list_categories ?db')) (strip n) = 1"
    by (simp add: count_names_of_listing)
  have listed: "(?i, strip n) \<in> set (list_categories ?db')"
    by (simp add: list_categories_def image_iff)
  have "strip n \<in> set (map cat_name (categories ?db'))" by simp
  then have dup: "add_category n ?db' = (Inl IntegrityError, ?db')"
    by (rule add_category_duplicate)
  show ?thesis
    using add fresh once listed dup by simp
qed

theorem add_category_then_duplicate_witness:
  "strip '' Rent '' = ''Rent'' \<and>
   ''Rent'' \<notin> set (map cat_name (categories food_db)) \<and>
   fst (add_category '' Rent '' food_db) = Inr 2 \<and>
   list_categories (snd (add_category '' Rent '' food_db)) = [(1, ''Food''), (2, ''Rent'')] \<and>
   fst (add_category '' Rent '' (snd (add_category '' Rent '' food_db))) = Inl IntegrityError"
proof -
  have s: "strip '' Rent '' = ''Rent''"
    by code_simp
  have new: "strip '' Rent '' \<notin> set (map cat_name (categories food_db))"
    by code_simp
  have r: "fst (add_category '' Rent '' food_db) = Inr 2"
    by code_simp
  have l: "list_categories (snd (add_category '' Rent '' food_db)) = [(1, ''Food''), (2, ''Rent'')]"
    by code_simp
  from add_category_then_duplicate [OF new]
  obtain i db' where "add_category '' Rent '' food_db = (Inr i, db')"
    and "add_category '' Rent '' db' = (Inl IntegrityError, db')"
    by blast
  then have "fst (add_category '' Rent '' (snd (add_category '' Rent '' food_db))) =
      Inl IntegrityError"
    by simp
  then show ?thesis
    using s new r l by simp
qed

subsection \<open>Listing transactions\<close>







subsection \<open>Recording a transaction from a signed amount\<close>

lemma add_transaction_cases:
  "add_transaction d a ds cid ty db = (Inl IntegrityError, db) \<or>
   (\<exists>i. add_transaction d a ds cid ty db =
      (Inr i, db\<lparr>transactions := transactions db @
                   [\<lparr>txn_id = i, date = d, amount = a, description = strip ds,
                     category_id = cid, txn_type = ty\<rparr>],
                 txn_seq := i\<rparr>))"
  by (simp add: add_transaction_def Let_def)

lemma add_transaction_nonneg:
  assumes "amounts_nonneg db" and "0 \<le> a"
  shows "amounts_nonneg (snd (add_transaction d a ds cid ty db))"
  using add_transaction_cases [of d a ds cid ty db] assms
  by (auto simp add: amounts_nonneg_def)

lemma snd_report_of_add:
  "snd (case p of (Inr tid, db') \<Rightarrow> (TransactionRecorded tid, db')
               | (Inl e, db') \<Rightarrow> (Uncaught e, db')) = snd p"
  by (cases p) (simp split: sum.splits)

lemma add_transaction_flow_unfold:
  assumes "strptime_ymd (prompt d) = Some ymd" and "c \<noteq> NotANumber"
  shows "add_transaction_flow d (Some v) ds c db =
      (case add_transaction (isoformat ymd) \<bar>v\<bar> (prompt ds)
              (case c of Number k \<Rightarrow> Some k | _ \<Rightarrow> None)
              (if 0 \<le> v then ''income'' else ''expense'') db of
         (Inr tid, db') \<Rightarrow> (TransactionRecorded tid, db')
       | (Inl e, db') \<Rightarrow> (Uncaught e, db'))"
  using assms by (cases c) (simp_all add: add_transaction_flow_def Let_def)

lemma add_transaction_flow_cases:
  "snd (add_transaction_flow d a ds c db) = db \<or>
   (\<exists>v d' ds' cid ty. snd (add_transaction_flow d a ds c db) =
       snd (add_transaction d' \<bar>v\<bar> ds' cid ty db))"
proof (cases "strptime_ymd (prompt d)")
  case None
  then show ?thesis by (simp add: add_transaction_flow_def)
next
  case (Some ymd)
  show ?thesis
  proof (cases a)
    case None
    then show ?thesis using Some by (simp add: add_transaction_flow_def)
  next
    case (Some v)
    show ?thesis
    proof (cases "c = NotANumber")
      case True
      then show ?thesis
        using Some \<open>strptime_ymd (prompt d) = Some ymd\<close>
        by (simp add: add_transaction_flow_def Let_def)
    next
      case False
      have "snd (add_transaction_flow d a ds c db) =
          snd (add_transaction (isoformat ymd) \<bar>v\<bar> (prompt ds)
                (case c of Number k \<Rightarrow> Some k | _ \<Rightarrow> None)
                (if 0 \<le> v then ''income'' else ''expense'') db)"
        unfolding Some
        by (simp only: add_transaction_flow_unfold
            [OF \<open>strptime_ymd (prompt d) = Some ymd\<close> False] snd_report_of_add)
      then show ?thesis by blast
    qed
  qed
qed

lemma add_transaction_flow_nonneg:
  assumes "amounts_nonneg db"
  shows "amounts_nonneg (snd (add_transaction_flow d a ds c db))"
  using add_transaction_flow_cases [of d a ds c db] assms add_transaction_nonneg [OF assms]
  by (metis abs_ge_zero)

lemma add_category_transactions: "transactions (snd (add_category n db)) = transactions db"
  by (simp add: add_category_def Let_def)

lemma add_category_flow_transactions:
  "transactions (snd (add_category_flow n db)) = transactions db"
  using add_category_transactions [of "prompt n" db]
  by (auto simp add: add_category_flow_def Let_def split: prod.splits sum.splits error.splits)

lemma delete_category_amounts:
  "map amount (transactions (snd (delete_category c db))) = map amount (transactions db)"
  by (simp add: delete_category_def Let_def comp_def)

lemma amounts_nonneg_map: "amounts_nonneg db \<longleftrightarrow> (\<forall>a \<in> set (map amount (transactions db)). 0 \<le> a)"
  by (simp add: amounts_nonneg_def)

lemma delete_category_flow_nonneg:
  assumes "amounts_nonneg db"
  shows "amounts_nonneg (snd (delete_category_flow c db))"
proof (cases c)
  case None
  then show ?thesis using assms by (simp add: delete_category_flow_def)
next
  case (Some k)
  have "snd (delete_category_flow (Some k) db) = snd (delete_category k db)"
    by (simp add: delete_category_flow_def split: prod.splits bool.splits)
  then show ?thesis
    using assms Some by (simp only: amounts_nonneg_map delete_category_amounts)
qed

lemma delete_transaction_subset:
  "set (transactions (snd (delete_transaction i db))) \<subseteq> set (transactions db)"
  by (auto simp add: delete_transaction_def Let_def)

lemma delete_transaction_flow_nonneg:
  assumes "amounts_nonneg db"
  shows "amounts_nonneg (snd (delete_transaction_flow i db))"
proof (cases i)
  case None
  then show ?thesis using assms by (simp add: delete_transaction_flow_def)
next
  case (Some k)
  have "snd (delete_transaction_flow (Some k) db) = snd (delete_transaction k db)"
    by (simp add: delete_transaction_flow_def split: prod.splits bool.splits)
  then show ?thesis
    using assms Some delete_transaction_subset [of k db]
    by (auto simp add: amounts_nonneg_def)
qed

lemma run_choice_nonneg:
  assumes "amounts_nonneg db"
  shows "amounts_nonneg (snd (run_choice ch db))"
proof (cases ch)
  case (AddCategory n)
  then show ?thesis
    using assms by (simp add: amounts_nonneg_def add_category_flow_transactions)
next
  case (DeleteCategory c)
  then show ?thesis using delete_category_flow_nonneg [OF assms] by simp
next
  case (AddTransaction d a ds c)
  then show ?thesis using add_transaction_flow_nonneg [OF assms] by simp
next
  case (DeleteTransaction i)
  then show ?thesis using delete_transaction_flow_nonneg [OF assms] by simp
next
  case ReadOnly
  then show ?thesis using assms by simp
qed

lemma main_step:
  "main (ch # cs) db = snd (run_choice ch db) \<or>
   main (ch # cs) db = main cs (snd (run_choice ch db))"
  by (auto split: prod.splits option.splits report.splits)

lemma main_nonneg: "amounts_nonneg db \<Longrightarrow> amounts_nonneg (main cs db)"
proof (induction cs arbitrary: db)
  case Nil
  then show ?case by simp
next
  case (Cons ch cs)
  have step: "amounts_nonneg (snd (run_choice ch db))"
    by (rule run_choice_nonneg [OF Cons.prems])
  from main_step [of ch cs db] show ?case
  proof
    assume "main (ch # cs) db = snd (run_choice ch db)"
    then show ?thesis using step by simp
  next
    assume "main (ch # cs) db = main cs (snd (run_choice ch db))"
    then show ?thesis using Cons.IH [OF step] by simp
  qed
qed

lemma add_transaction_flow_recorded:
  assumes "add_transaction_flow d (Some v) ds c db = (TransactionRecorded i, db')"
  shows "\<exists>t. transactions db' = transactions db @ [t] \<and> txn_id t = i \<and> amount t = \<bar>v\<bar> \<and>
             txn_type t = (if 0 \<le> v then ''income'' else ''expense'') \<and>
             strptime_ymd (prompt d) = Some (the (strptime_ymd (prompt d))) \<and>
             date t = isoformat (the (strptime_ymd (prompt d)))"
proof (cases "strptime_ymd (prompt d)")
  case None
  then show ?thesis using assms by (simp add: add_transaction_flow_def)
next
  case (Some ymd)
  let ?cid = "case c of Number k \<Rightarrow> Some k | _ \<Rightarrow> None"
  let ?ty = "if 0 \<le> v then ''income'' else ''expense''"
  have "c \<noteq> NotANumber"
    using assms Some by (auto simp add: add_transaction_flow_def Let_def)
  then have flow: "add_transaction_flow d (Some v) ds c db =
      (case add_transaction (isoformat ymd) \<bar>v\<bar> (prompt ds) ?cid ?ty db of
         (Inr tid, db') \<Rightarrow> (TransactionRecorded tid, db')
       | (Inl e, db') \<Rightarrow> (Uncaught e, db'))"
    by (rule add_transaction_flow_unfold [OF Some])
  from add_transaction_cases [of "isoformat ymd" "\<bar>v\<bar>" "prompt ds" ?cid ?ty db]
  show ?thesis
  proof
    assume "add_transaction (isoformat ymd) \<bar>v\<bar> (prompt ds) ?cid ?ty db = (Inl IntegrityError, db)"
    then show ?thesis using flow assms by simp
  next
    assume "\<exists>j. add_transaction (isoformat ymd) \<bar>v\<bar> (prompt ds) ?cid ?ty db =
      (Inr j, db\<lparr>transactions := transactions db @
                   [\<lparr>txn_id = j, date = isoformat ymd, amount = \<bar>v\<bar>, description = strip (prompt ds),
                     category_id = ?cid, txn_type = ?ty\<rparr>],
                 txn_seq := j\<rparr>)"
    then obtain j where j: "add_transaction (isoformat ymd) \<bar>v\<bar> (prompt ds) ?cid ?ty db =
      (Inr j, db\<lparr>transactions := transactions db @
                   [\<lparr>txn_id = j, date = isoformat ymd, amount = \<bar>v\<bar>, description = strip (prompt ds),
                     category_id = ?cid, txn_type = ?ty\<rparr>],
                 txn_seq := j\<rparr>)"
      by blast
    have "i = j" and "db' = db\<lparr>transactions := transactions db @
                   [\<lparr>txn_id = j, date = isoformat ymd, amount = \<bar>v\<bar>, description = strip (prompt ds),
                     category_id = ?cid, txn_type = ?ty\<rparr>],
                 txn_seq := j\<rparr>"
      using flow assms j by simp_all
    then show ?thesis using Some by simp
  qed
qed

text \<open>
  C7. Starting from a store whose amounts are all non-negative (the empty store is
  one), every run of the menu loop leaves a store whose amounts are all non-negative.
  When \<open>add_transaction_flow\<close> records the signed amount \<open>v\<close>, the store gains exactly one
  row, with amount \<open>\<bar>v\<bar>\<close> and with type income when \<open>v \<ge> 0\<close> and expense otherwise.
\<close>

theorem signed_input_stored_as_magnitude:
  assumes "amounts_nonneg db"
  shows "amounts_nonneg (main cs db) \<and>
         (add_transaction_flow d (Some v) ds c db = (TransactionRecorded i, db') \<longrightarrow>
            amounts_nonneg db' \<and>
            (\<exists>t. transactions db' = transactions db @ [t] \<and> txn_id t = i \<and>
                 amount t = \<bar>v\<bar> \<and> 0 \<le> amount t \<and>
                 txn_type t = (if 0 \<le> v then ''income'' else ''expense'')))"
proof (intro conjI impI)
  show "amounts_nonneg (main cs db)"
    by (rule main_nonneg [OF assms])
next
  assume rec: "add_transaction_flow d (Some v) ds c db = (TransactionRecorded i, db')"
  show "amounts_nonneg db'"
    using add_transaction_flow_nonneg [OF assms, of d "Some v" ds c] rec by simp
  from add_transaction_flow_recorded [OF rec]
  show "\<exists>t. transactions db' = transactions db @ [t] \<and> txn_id t = i \<and>
                 amount t = \<bar>v\<bar> \<and> 0 \<le> amount t \<and>
                 txn_type t = (if 0 \<le> v then ''income'' else ''expense'')"
    by auto
qed

theorem signed_input_stored_as_magnitude_witness:
  "amounts_nonneg food_db \<and>
   add_transaction_flow ''2024-03-15'' (Some (- 42.5)) ''Groceries'' (Number 1) food_db =
     (TransactionRecorded 1, groceries_db) \<and>
   transactions groceries_db = transactions food_db @ [groceries] \<and>
   amount groceries = \<bar>- 42.5\<bar> \<and> txn_type groceries = ''expense'' \<and>
   amounts_nonneg groceries_db \<and>
   amounts_nonneg (main [AddTransaction ''2024-04-01'' (Some 100) ''Pay'' Blank] food_db)"
proof -
  have inv: "amounts_nonneg food_db"
    unfolding amounts_nonneg_def by code_simp
  have rec: "add_transaction_flow ''2024-03-15'' (Some (- 42.5)) ''Groceries'' (Number 1) food_db =
     (TransactionRecorded 1, groceries_db)"
    by code_simp
  have rows: "transactions groceries_db = transactions food_db @ [groceries]"
    by code_simp
  have g: "amount groceries = \<bar>- 42.5\<bar>" "txn_type groceries = ''expense''"
    by (simp_all add: groceries_def)
  from signed_input_stored_as_magnitude [OF inv,
      of "[AddTransaction ''2024-04-01'' (Some 100) ''Pay'' Blank]" "''2024-03-15''" "- 42.5"
         "''Groceries''" "Number 1" 1 groceries_db] rec
  have "amounts_nonneg (main [AddTransaction ''2024-04-01'' (Some 100) ''Pay'' Blank] food_db)"
    and "amounts_nonneg groceries_db"
    by simp_all
  then show ?thesis
    using inv rec rows g by (simp only: simp_thms)
qed

subsection \<open>Dates that do not parse\<close>

text \<open>
  C8, as amended. When the date typed into \<open>add_transaction_flow\<close> fails to parse, the
  flow reports the invalid date and returns the store it was given, whatever the other
  answers are: it never reaches \<open>add_transaction\<close>.
\<close>

theorem invalid_date_rejected_by_flow:
  assumes "strptime_ymd (prompt d) = None"
  shows "add_transaction_flow d a ds c db = (InvalidDate, db)"
  using assms by (simp add: add_transaction_flow_def)

theorem invalid_date_rejected_by_flow_witness:
  "strptime_ymd (prompt ''2024-02-30'') = None \<and>
   add_transaction_flow ''2024-02-30'' (Some (- 5)) ''Lunch'' Blank food_db = (InvalidDate, food_db)"
proof -
  have bad: "strptime_ymd (prompt ''2024-02-30'') = None"
    by code_simp
  from invalid_date_rejected_by_flow [OF bad] bad show ?thesis
    by simp
qed

text \<open>
  The claim C8 as stated fails for the store method: \<open>add_transaction\<close> looks at no
  date, so the date 2024-02-30, which does not parse, is stored in a new row.
\<close>

theorem add_transaction_unchecked_date_counterexample:
  "strptime_ymd ''2024-02-30'' = None \<and>
   transactions fresh_db = [] \<and>
   add_transaction ''2024-02-30'' 5 ''Lunch'' None ''expense'' fresh_db =
     (Inr 1, fresh_db\<lparr>transactions :=
                [\<lparr>txn_id = 1, date = ''2024-02-30'', amount = 5, description = ''Lunch'',
                  category_id = None, txn_type = ''expense''\<rparr>],
              txn_seq := 1\<rparr>)"
  by code_simp

subsection \<open>The scenario stores, evaluated\<close>

lemmas flow_eval =
  add_transaction_flow_def add_category_flow_def prompt_def strip_def is_space_def
  strptime_ymd_def is_digit_def match_month_def match_day_def digit_val_def days_in_month_def
  is_leap_def isoformat_def format_d_def zero_pad_def dec.simps digit_char_def
  add_transaction_def add_category_def next_rowid_def Let_def
  fresh_db_def initialize_schema_def empty_db_def create_table_if_not_exists_def

lemmas summary_eval =
  monthly_summary_def monthly_rows_def joined_rows_def left_join_name_def month_bounds_def
  sum_of_type_def format_d_def zero_pad_def dec.simps digit_char_def Let_def

lemma groceries_db_rows:
  "transactions groceries_db = [groceries]"
  "categories groceries_db = [\<lparr>cat_id = 1, cat_name = ''Food''\<rparr>]"
  by (simp_all add: groceries_db_def food_db_def groceries_def flow_eval)

lemma last_december_rows:
  "transactions last_december_db =
     [\<lparr>txn_id = 1, date = ''9999-12-31'', amount = 10, description = ''Fireworks'',
       category_id = None, txn_type = ''expense''\<rparr>]"
  "categories last_december_db = []"
  by (simp_all add: last_december_db_def flow_eval)

subsection \<open>The monthly summary\<close>

lemma filter_unique_key:
  assumes "distinct (map f xs)"
  shows "filter (\<lambda>x. f x = a) xs = (case find (\<lambda>x. f x = a) xs of None \<Rightarrow> [] | Some x \<Rightarrow> [x])"
  using assms
proof (induction xs)
  case Nil
  show ?case by simp
next
  case (Cons x xs)
  show ?case
  proof (cases "f x = a")
    case True
    then have "a \<notin> f ` set xs" using Cons.prems by auto
    then have "filter (\<lambda>x. f x = a) xs = []"
      by (auto simp add: filter_empty_conv)
    then show ?thesis using True by simp
  next
    case False
    then show ?thesis using Cons by simp
  qed
qed

lemma left_join_resolved:
  assumes "distinct (map cat_id (categories db))"
  shows "left_join_name (categories db) t = [resolved_name db t]"
proof (cases "category_id t")
  case None
  then show ?thesis
    by (simp add: left_join_name_def resolved_name_def)
next
  case (Some c)
  have "filter (\<lambda>k. category_id t = Some (cat_id k)) (categories db) =
        filter (\<lambda>k. cat_id k = c) (categories db)"
    using Some by (auto intro: filter_cong)
  also have "\<dots> = (case find (\<lambda>k. cat_id k = c) (categories db) of None \<Rightarrow> [] | Some k \<Rightarrow> [k])"
    by (rule filter_unique_key [OF assms])
  finally show ?thesis
    using Some by (simp add: left_join_name_def resolved_name_def split: option.splits)
qed

lemma joined_rows_resolved:
  assumes "distinct (map cat_id (categories db))"
  shows "joined_rows db = map (\<lambda>t. (resolved_name db t, t)) (transactions db)"
  by (induction "transactions db")
     (simp_all add: joined_rows_def left_join_resolved [OF assms])

lemma monthly_rows_resolved:
  assumes "distinct (map cat_id (categories db))"
  shows "monthly_rows y m db = map (\<lambda>t. (resolved_name db t, t)) (bounded_txns y m db)"
proof -
  have "(\<lambda>t. fst (month_bounds y m) \<le> date t \<and> date t < snd (month_bounds y m)) = in_bounds y m"
    by (rule ext) (simp add: in_bounds_def)
  then show ?thesis
    by (simp add: monthly_rows_def joined_rows_resolved [OF assms] bounded_txns_def
        filter_map comp_def split_beta)
qed

lemma group_of_rows:
  "filter (\<lambda>(n, t). n = g) (map (\<lambda>t. (r t, t)) ts) = map (\<lambda>t. (r t, t)) (filter (\<lambda>t. r t = g) ts)"
  by (induction ts) simp_all

lemma sum_of_type_total: "sum_of_type ty (map (\<lambda>t. (r t, t)) ts) = total ty ts"
  by (induction ts) (simp_all add: sum_of_type_def total_def)

lemma monthly_summary_rows:
  assumes "distinct (map cat_id (categories db))"
  shows "monthly_summary y m db =
         map (group_row db (bounded_txns y m db))
           (sort (remdups (map (resolved_name db) (bounded_txns y m db))))"
  by (simp add: monthly_summary_def monthly_rows_resolved [OF assms] group_of_rows
      sum_of_type_total group_row_def comp_def Let_def)

lemma resolved_name_None:
  "resolved_name db t = None \<longleftrightarrow>
     (case category_id t of None \<Rightarrow> True | Some c \<Rightarrow> c \<notin> set (map cat_id (categories db)))"
  by (auto simp add: resolved_name_def find_None_iff image_iff split: option.splits)

text \<open>The hypothesis of distinct category ids holds in every store the program reaches.\<close>

lemma add_category_distinct_ids:
  assumes "distinct (map cat_id (categories db))"
  shows "distinct (map cat_id (categories (snd (add_category n db))))"
  using assms next_rowid_fresh [of "cat_seq db" "map cat_id (categories db)"]
  by (simp add: add_category_def Let_def)

lemma delete_category_distinct_ids:
  assumes "distinct (map cat_id (categories db))"
  shows "distinct (map cat_id (categories (snd (delete_category c db))))"
  using assms by (simp add: delete_category_def Let_def distinct_map_filter)

lemma add_transaction_categories:
  "categories (snd (add_transaction d a ds cid ty db)) = categories db"
  by (simp add: add_transaction_def Let_def)

lemma add_transaction_flow_categories:
  "categories (snd (add_transaction_flow d a ds c db)) = categories db"
  using add_transaction_flow_cases [of d a ds c db]
  by (auto simp add: add_transaction_categories)

lemma run_choice_distinct_ids:
  assumes "distinct (map cat_id (categories db))"
  shows "distinct (map cat_id (categories (snd (run_choice ch db))))"
proof (cases ch)
  case (AddCategory n)
  have "snd (add_category_flow n db) = db \<or>
        snd (add_category_flow n db) = snd (add_category (prompt n) db)"
    by (auto simp add: add_category_flow_def Let_def split: prod.splits sum.splits error.splits)
  then show ?thesis
    using AddCategory assms add_category_distinct_ids [OF assms, of "prompt n"] by auto
next
  case (DeleteCategory c)
  show ?thesis
  proof (cases c)
    case None
    then show ?thesis using DeleteCategory assms by (simp add: delete_category_flow_def)
  next
    case (Some k)
    have "snd (delete_category_flow (Some k) db) = snd (delete_category k db)"
      by (simp add: delete_category_flow_def split: prod.splits bool.splits)
    then show ?thesis
      using DeleteCategory Some delete_category_distinct_ids [OF assms, of k] by simp
  qed
next
  case (AddTransaction d a ds c)
  then show ?thesis using assms by (simp add: add_transaction_flow_categories)
next
  case (DeleteTransaction i)
  have "categories (snd (delete_transaction_flow i db)) = categories db"
    by (auto simp add: delete_transaction_flow_def delete_transaction_def Let_def
        split: option.splits prod.splits bool.splits)
  then show ?thesis using DeleteTransaction assms by simp
next
  case ReadOnly
  then show ?thesis using assms by simp
qed

lemma main_distinct_ids:
  "distinct (map cat_id (categories db)) \<Longrightarrow> distinct (map cat_id (categories (main cs db)))"
proof (induction cs arbitrary: db)
  case Nil
  then show ?case by simp
next
  case (Cons ch cs)
  have step: "distinct (map cat_id (categories (snd (run_choice ch db))))"
    by (rule run_choice_distinct_ids [OF Cons.prems])
  from main_step [of ch cs db] show ?case
  proof
    assume "main (ch # cs) db = snd (run_choice ch db)"
    then show ?thesis using step by simp
  next
    assume "main (ch # cs) db = main cs (snd (run_choice ch db))"
    then show ?thesis using Cons.IH [OF step] by simp
  qed
qed

text \<open>
  What \<open>monthly_summary\<close> returns, in a store whose category ids are distinct, in terms
  of the transactions that pass the code's own date test.
\<close>

lemma monthly_summary_of_bounded:
  assumes "distinct (map cat_id (categories db))"
  shows "set (monthly_summary y m db) =
           group_row db (bounded_txns y m db) ` resolved_name db ` set (bounded_txns y m db)"
    and "distinct (map fst (monthly_summary y m db))"
    and "monthly_summary y m db = [] \<longleftrightarrow> bounded_txns y m db = []"
proof -
  note eq = monthly_summary_rows [OF assms, of y m]
  have names: "map fst (monthly_summary y m db) =
      sort (remdups (map (resolved_name db) (bounded_txns y m db)))"
    by (simp add: eq comp_def group_row_def)
  show "distinct (map fst (monthly_summary y m db))"
    by (simp add: names)
  show "set (monthly_summary y m db) =
      group_row db (bounded_txns y m db) ` resolved_name db ` set (bounded_txns y m db)"
    by (simp add: eq)
  have "monthly_summary y m db = [] \<longleftrightarrow> set (map fst (monthly_summary y m db)) = {}"
    by simp
  also have "\<dots> \<longleftrightarrow> bounded_txns y m db = []"
    by (simp add: names)
  finally show "monthly_summary y m db = [] \<longleftrightarrow> bounded_txns y m db = []" .
qed

subsection \<open>Zero-padded numbers and dates as text\<close>

lemma length_fixed_width: "length (fixed_width w n) = w"
  by (induction w arbitrary: n) simp_all

lemma fixed_width_zero: "fixed_width w 0 = replicate w (CHR ''0'')"
  by (induction w) (simp_all add: digit_char_def replicate_append_same)

lemma zero_pad_fixed_width: "0 < w \<Longrightarrow> n < 10 ^ w \<Longrightarrow> zero_pad w (dec n) = fixed_width w n"
proof (induction w arbitrary: n)
  case 0
  then show ?case by simp
next
  case (Suc w)
  show ?case
  proof (cases "n < 10")
    case True
    then have "dec n = [digit_char n]" by (subst dec.simps) simp
    then show ?thesis
      using True by (simp add: zero_pad_def fixed_width_zero)
  next
    case False
    then have d: "dec n = dec (n div 10) @ [digit_char (n mod 10)]"
      by (subst dec.simps) simp
    have "0 < w" using False Suc.prems(2) by (cases w) simp_all
    moreover have "n div 10 < 10 ^ w" using Suc.prems(2) by simp
    ultimately have "zero_pad w (dec (n div 10)) = fixed_width w (n div 10)"
      by (rule Suc.IH)
    then show ?thesis
      by (simp add: d zero_pad_def)
  qed
qed

lemma format_d_fixed_width:
  "0 < w \<Longrightarrow> n < 10 ^ w \<Longrightarrow> format_d w (int n) = fixed_width w n"
  by (simp add: format_d_def zero_pad_fixed_width)

lemma digit_cases:
  assumes "(a::nat) < 10"
  shows "a \<in> set [0, 1, 2, 3, 4, 5, 6, 7, 8, 9]"
proof -
  have "a \<in> set [0 ..< 10]" using assms by simp
  also have "[0 ..< 10] = [0, 1, 2, 3, 4, 5, 6, 7, 8, 9 :: nat]" by (simp add: upt_rec)
  finally show ?thesis .
qed

lemma of_char_digit_char: "a < 10 \<Longrightarrow> (of_char (digit_char a) :: nat) = 48 + a"
  using digit_cases [of a] by (auto simp add: digit_char_def)

lemma digit_char_less: "a < 10 \<Longrightarrow> b < 10 \<Longrightarrow> digit_char a < digit_char b \<longleftrightarrow> a < b"
  by (simp add: less_char_def of_char_digit_char)

lemma digit_char_eq:
  assumes "a < 10" and "b < 10"
  shows "digit_char a = digit_char b \<longleftrightarrow> a = b"
proof
  assume "digit_char a = digit_char b"
  then have "(of_char (digit_char a) :: nat) = of_char (digit_char b)"
    by (rule arg_cong)
  then show "a = b"
    by (simp only: of_char_digit_char [OF assms(1)] of_char_digit_char [OF assms(2)]
        add_left_cancel)
next
  assume "a = b"
  then show "digit_char a = digit_char b" by (rule arg_cong)
qed

lemma lex_base10:
  fixes q r q' r' :: nat
  assumes "r < 10" and "r' < 10"
  shows "(q < q' \<or> (q = q' \<and> r < r')) \<longleftrightarrow> 10 * q + r < 10 * q' + r'"
  using assms by linarith

lemma divmod_less:
  "(n div 10 < k div 10 \<or> (n div 10 = k div 10 \<and> n mod 10 < k mod 10)) \<longleftrightarrow> n < k"
  for n k :: nat
  using lex_base10 [of "n mod 10" "k mod 10" "n div 10" "k div 10"] by simp

lemma divmod_eq: "(n div 10 = k div 10 \<and> n mod 10 = k mod 10) \<longleftrightarrow> n = k" for n k :: nat
  by (metis div_mult_mod_eq)

lemma lex_append_less:
  "length a = length b \<Longrightarrow> (a @ x < b @ y) \<longleftrightarrow> (a < b \<or> (a = b \<and> x < y))"
  for a b x y :: string
  by (induction a b rule: list_induct2) auto

lemma lex_append_le:
  "length a = length b \<Longrightarrow> (a @ x \<le> b @ y) \<longleftrightarrow> (a < b \<or> (a = b \<and> x \<le> y))"
  for a b x y :: string
  by (induction a b rule: list_induct2) auto

lemma fixed_width_order:
  "n < 10 ^ w \<Longrightarrow> k < 10 ^ w \<Longrightarrow>
   (fixed_width w n < fixed_width w k \<longleftrightarrow> n < k) \<and> (fixed_width w n = fixed_width w k \<longleftrightarrow> n = k)"
proof (induction w arbitrary: n k)
  case 0
  then show ?case by simp
next
  case (Suc w)
  have q: "n div 10 < 10 ^ w" "k div 10 < 10 ^ w"
    using Suc.prems by simp_all
  note ih = Suc.IH [OF q]
  have len: "length (fixed_width w (n div 10)) = length (fixed_width w (k div 10))"
    by (simp add: length_fixed_width)
  have less: "fixed_width (Suc w) n < fixed_width (Suc w) k \<longleftrightarrow>
      n div 10 < k div 10 \<or> (n div 10 = k div 10 \<and> n mod 10 < k mod 10)"
    by (simp add: lex_append_less [OF len] ih digit_char_less)
  have eq: "fixed_width (Suc w) n = fixed_width (Suc w) k \<longleftrightarrow>
      n div 10 = k div 10 \<and> n mod 10 = k mod 10"
    by (simp add: ih digit_char_eq)
  show ?case
    by (simp only: less eq divmod_less divmod_eq simp_thms)
qed

lemma fixed_width_less: "n < 10 ^ w \<Longrightarrow> k < 10 ^ w \<Longrightarrow> fixed_width w n < fixed_width w k \<longleftrightarrow> n < k"
  using fixed_width_order by blast

lemma fixed_width_eq: "n < 10 ^ w \<Longrightarrow> k < 10 ^ w \<Longrightarrow> fixed_width w n = fixed_width w k \<longleftrightarrow> n = k"
  using fixed_width_order by blast

lemma isoformat_fixed_width:
  assumes "Y < 10000" and "M < 100" and "D < 100"
  shows "isoformat (Y, M, D) =
         fixed_width 4 Y @ ''-'' @ fixed_width 2 M @ ''-'' @ fixed_width 2 D"
  using assms by (simp add: isoformat_def format_d_fixed_width)

lemma first_of_month_fixed_width:
  assumes "0 \<le> y" and "y < 10000" and "0 \<le> m" and "m < 100"
  shows "format_d 4 y @ ''-'' @ format_d 2 m @ ''-01'' = isoformat (nat y, nat m, 1)"
proof -
  have "format_d 4 y = format_d 4 (int (nat y))" "format_d 2 m = format_d 2 (int (nat m))"
    using assms by simp_all
  moreover have "dec 1 = ''1''"
    by (subst dec.simps) (simp add: digit_char_def)
  then have "format_d 2 (int 1) = ''01''"
    by (simp add: format_d_def zero_pad_def)
  ultimately show ?thesis
    by (simp add: isoformat_def)
qed

lemma isoformat_less:
  assumes "Y < 10000" "M < 100" "D < 100" "Y' < 10000" "M' < 100" "D' < 100"
  shows "isoformat (Y, M, D) < isoformat (Y', M', D') \<longleftrightarrow>
         Y < Y' \<or> (Y = Y' \<and> (M < M' \<or> (M = M' \<and> D < D')))"
proof -
  have l4: "length (fixed_width 4 Y) = length (fixed_width 4 Y')"
    and l2: "length (fixed_width 2 M) = length (fixed_width 2 M')"
    by (simp_all only: length_fixed_width)
  have y: "fixed_width 4 Y < fixed_width 4 Y' \<longleftrightarrow> Y < Y'"
    "fixed_width 4 Y = fixed_width 4 Y' \<longleftrightarrow> Y = Y'"
    using assms by (simp_all add: fixed_width_less fixed_width_eq)
  have m: "fixed_width 2 M < fixed_width 2 M' \<longleftrightarrow> M < M'"
    "fixed_width 2 M = fixed_width 2 M' \<longleftrightarrow> M = M'"
    using assms by (simp_all add: fixed_width_less fixed_width_eq)
  have d: "fixed_width 2 D < fixed_width 2 D' \<longleftrightarrow> D < D'"
    using assms by (simp add: fixed_width_less)
  have "isoformat (Y, M, D) < isoformat (Y', M', D') \<longleftrightarrow>
        fixed_width 4 Y @ (CHR ''-'' # (fixed_width 2 M @ (CHR ''-'' # fixed_width 2 D))) <
        fixed_width 4 Y' @ (CHR ''-'' # (fixed_width 2 M' @ (CHR ''-'' # fixed_width 2 D')))"
    using assms by (simp add: isoformat_fixed_width)
  also have "\<dots> \<longleftrightarrow> Y < Y' \<or> (Y = Y' \<and> (M < M' \<or> (M = M' \<and> D < D')))"
    by (simp only: lex_append_less [OF l4] lex_append_less [OF l2] Cons_less_Cons y m d
        less_irrefl simp_thms)
  finally show ?thesis .
qed

lemma isoformat_eq:
  assumes "Y < 10000" "M < 100" "D < 100" "Y' < 10000" "M' < 100" "D' < 100"
  shows "isoformat (Y, M, D) = isoformat (Y', M', D') \<longleftrightarrow> Y = Y' \<and> M = M' \<and> D = D'"
proof -
  have y: "fixed_width 4 Y = fixed_width 4 Y' \<longleftrightarrow> Y = Y'"
    and m: "fixed_width 2 M = fixed_width 2 M' \<longleftrightarrow> M = M'"
    and d: "fixed_width 2 D = fixed_width 2 D' \<longleftrightarrow> D = D'"
    using assms by (simp_all add: fixed_width_eq)
  have "isoformat (Y, M, D) = isoformat (Y', M', D') \<longleftrightarrow>
        fixed_width 4 Y @ (CHR ''-'' # (fixed_width 2 M @ (CHR ''-'' # fixed_width 2 D))) =
        fixed_width 4 Y' @ (CHR ''-'' # (fixed_width 2 M' @ (CHR ''-'' # fixed_width 2 D')))"
    using assms by (simp add: isoformat_fixed_width)
  also have "\<dots> \<longleftrightarrow> Y = Y' \<and> M = M' \<and> D = D'"
    by (simp add: append_eq_append_conv length_fixed_width y m d del: fixed_width.simps)
  finally show ?thesis .
qed

lemma isoformat_le:
  assumes "Y < 10000" "M < 100" "D < 100" "Y' < 10000" "M' < 100" "D' < 100"
  shows "isoformat (Y, M, D) \<le> isoformat (Y', M', D') \<longleftrightarrow>
         Y < Y' \<or> (Y = Y' \<and> (M < M' \<or> (M = M' \<and> D \<le> D')))"
  unfolding le_less [of "isoformat (Y, M, D)"] isoformat_less [OF assms] isoformat_eq [OF assms]
  by auto

lemma month_bounds_iso:
  assumes "0 \<le> y" and "1 \<le> m" and "m \<le> 12" and "y < 9999 \<or> (y = 9999 \<and> m < 12)"
  shows "month_bounds y m =
         (isoformat (nat y, nat m, 1),
          if m = 12 then isoformat (nat y + 1, 1, 1) else isoformat (nat y, nat m + 1, 1))"
proof (cases "m = 12")
  case True
  then have "y + 1 < 10000" "0 \<le> y + 1" using assms by simp_all
  then have "format_d 4 (y + 1) @ ''-'' @ format_d 2 1 @ ''-01'' = isoformat (nat (y + 1), nat 1, 1)"
    by (intro first_of_month_fixed_width) simp_all
  moreover have "format_d 4 y @ ''-'' @ format_d 2 m @ ''-01'' = isoformat (nat y, nat m, 1)"
    using assms by (intro first_of_month_fixed_width) auto
  moreover have "nat (y + 1) = nat y + 1" using assms by simp
  ultimately show ?thesis
    using True by (simp add: month_bounds_def)
next
  case False
  have "format_d 4 y @ ''-'' @ format_d 2 (m + 1) @ ''-01'' = isoformat (nat y, nat (m + 1), 1)"
    using assms by (intro first_of_month_fixed_width) auto
  moreover have "format_d 4 y @ ''-'' @ format_d 2 m @ ''-01'' = isoformat (nat y, nat m, 1)"
    using assms by (intro first_of_month_fixed_width) auto
  moreover have "nat (m + 1) = nat m + 1" using assms by simp
  ultimately show ?thesis
    using False by (simp add: month_bounds_def)
qed

lemma bounds_iso:
  assumes "0 \<le> y" and "1 \<le> m" and "m \<le> 12" and "y < 9999 \<or> (y = 9999 \<and> m < 12)"
    and "Y < 10000" and "M < 100" and "1 \<le> D" and "D < 100" and "1 \<le> M" and "M \<le> 12"
  shows "fst (month_bounds y m) \<le> isoformat (Y, M, D) \<and>
         isoformat (Y, M, D) < snd (month_bounds y m) \<longleftrightarrow> int Y = y \<and> int M = m"
proof (cases "m = 12")
  case True
  have b: "nat y < 10000" "nat m < 100" "nat y + 1 < 10000" "(1::nat) < 100"
    using assms True by auto
  have mb: "month_bounds y m = (isoformat (nat y, nat m, 1), isoformat (nat y + 1, 1, 1))"
    using month_bounds_iso [OF assms(1-4)] True by simp
  have "fst (month_bounds y m) \<le> isoformat (Y, M, D) \<and>
      isoformat (Y, M, D) < snd (month_bounds y m) \<longleftrightarrow>
      isoformat (nat y, nat m, 1) \<le> isoformat (Y, M, D) \<and>
      isoformat (Y, M, D) < isoformat (nat y + 1, 1, 1)"
    by (simp only: mb fst_conv snd_conv)
  also have "\<dots> \<longleftrightarrow> int Y = y \<and> int M = m"
    unfolding isoformat_le [OF b(1,2,4) assms(5,6,8)] isoformat_less [OF assms(5,6,8) b(3,4,4)]
    using assms True by auto
  finally show ?thesis .
next
  case False
  have b: "nat y < 10000" "nat m < 100" "nat m + 1 < 100" "(1::nat) < 100"
    using assms False by auto
  have mb: "month_bounds y m = (isoformat (nat y, nat m, 1), isoformat (nat y, nat m + 1, 1))"
    using month_bounds_iso [OF assms(1-4)] False by simp
  have "fst (month_bounds y m) \<le> isoformat (Y, M, D) \<and>
      isoformat (Y, M, D) < snd (month_bounds y m) \<longleftrightarrow>
      isoformat (nat y, nat m, 1) \<le> isoformat (Y, M, D) \<and>
      isoformat (Y, M, D) < isoformat (nat y, nat m + 1, 1)"
    by (simp only: mb fst_conv snd_conv)
  also have "\<dots> \<longleftrightarrow> int Y = y \<and> int M = m"
    unfolding isoformat_le [OF b(1,2,4) assms(5,6,8)] isoformat_less [OF assms(5,6,8) b(1,3,4)]
    using assms False by auto
  finally show ?thesis .
qed

subsection \<open>The month of a stored date\<close>

lemma digit_val_bound: "is_digit c \<Longrightarrow> digit_val c \<le> 9"
  by (auto simp add: is_digit_def digit_val_def)

lemma match_month_range: "match_month s = Some m \<Longrightarrow> 1 \<le> m \<and> m \<le> 12"
  by (auto simp add: match_month_def digit_val_def split: list.splits if_splits)

lemma match_day_range: "match_day s = Some d \<Longrightarrow> 1 \<le> d"
  by (auto simp add: match_day_def digit_val_def is_digit_def split: list.splits if_splits)

lemma days_in_month_le: "days_in_month y m \<le> 31"
  by (simp add: days_in_month_def)

lemma strptime_ymd_valid:
  assumes "strptime_ymd s = Some (Y, M, D)"
  shows "1 \<le> Y \<and> Y \<le> 9999 \<and> 1 \<le> M \<and> M \<le> 12 \<and> 1 \<le> D \<and> D \<le> days_in_month Y M"
proof -
  from assms obtain y1 y2 y3 y4 rest day_s where
    dig: "is_digit y1" "is_digit y2" "is_digit y3" "is_digit y4"
    and Y: "Y = 1000 * digit_val y1 + 100 * digit_val y2 + 10 * digit_val y3 + digit_val y4"
    and mm: "match_month (takeWhile (\<lambda>c. c \<noteq> CHR ''-'') rest) = Some M"
    and dd: "match_day day_s = Some D"
    and ok: "1 \<le> Y" "D \<le> days_in_month Y M"
    by (auto simp add: strptime_ymd_def Let_def split: list.splits if_splits option.splits)
  have "Y \<le> 9999"
    using dig [THEN digit_val_bound] Y by linarith
  then show ?thesis
    using match_month_range [OF mm] match_day_range [OF dd] ok by simp
qed

lemma add_transaction_flow_date:
  assumes "add_transaction_flow d (Some v) ds c db = (TransactionRecorded i, db')"
  shows "\<exists>t Y M D. transactions db' = transactions db @ [t] \<and> date t = isoformat (Y, M, D) \<and>
           1 \<le> Y \<and> Y \<le> 9999 \<and> 1 \<le> M \<and> M \<le> 12 \<and> 1 \<le> D \<and> D \<le> 31"
proof -
  from add_transaction_flow_recorded [OF assms]
  obtain t where t: "transactions db' = transactions db @ [t]"
    and p: "strptime_ymd (prompt d) = Some (the (strptime_ymd (prompt d)))"
    and dt: "date t = isoformat (the (strptime_ymd (prompt d)))"
    by blast
  obtain Y M D where ymd: "the (strptime_ymd (prompt d)) = (Y, M, D)"
    by (cases "the (strptime_ymd (prompt d))") auto
  from strptime_ymd_valid [of "prompt d" Y M D] p ymd
  have "1 \<le> Y \<and> Y \<le> 9999 \<and> 1 \<le> M \<and> M \<le> 12 \<and> 1 \<le> D \<and> D \<le> days_in_month Y M"
    by simp
  moreover have "days_in_month Y M \<le> 31" by (rule days_in_month_le)
  ultimately show ?thesis
    using t dt ymd by (intro exI [of _ t] exI [of _ Y] exI [of _ M] exI [of _ D]) simp
qed

text \<open>
  For the years 0 to 9998, and for the months January to November of 9999, the bounds
  of \<open>monthly_summary\<close> hold a transaction with a valid ISO date exactly when the date
  has that year and that month. So such a date lies within the bounds of one month
  only: 31 December of year \<open>y\<close> in those of \<open>(y, 12)\<close>, 1 January of \<open>y + 1\<close> in those of
  \<open>(y + 1, 1)\<close>.
\<close>

lemma month_interval_exact:
  assumes "0 \<le> y" and "1 \<le> m" and "m \<le> 12" and "y < 9999 \<or> (y = 9999 \<and> m < 12)"
    and "date t = isoformat (Y, M, D)"
    and "1 \<le> Y" and "Y \<le> 9999" and "1 \<le> M" and "M \<le> 12" and "1 \<le> D" and "D \<le> 31"
  shows "in_bounds y m t \<longleftrightarrow> int Y = y \<and> int M = m"
proof -
  have "Y < 10000" "M < 100" "D < 100"
    using assms by simp_all
  from bounds_iso [OF assms(1-4) this(1,2) assms(10) this(3) assms(8,9)]
  show ?thesis
    by (simp add: in_bounds_def assms(5))
qed

lemma iso_date_Some:
  assumes "iso_date s = Some (Y, M, D)"
  shows "s = isoformat (Y, M, D)"
    and "1 \<le> Y \<and> Y \<le> 9999 \<and> 1 \<le> M \<and> M \<le> 12 \<and> 1 \<le> D \<and> D \<le> 31"
proof -
  from assms have p: "strptime_ymd s = Some (Y, M, D)" and "isoformat (Y, M, D) = s"
    by (auto simp add: iso_date_def split: option.splits if_splits)
  then show "s = isoformat (Y, M, D)" by simp
  from strptime_ymd_valid [OF p] days_in_month_le [of Y M]
  show "1 \<le> Y \<and> Y \<le> 9999 \<and> 1 \<le> M \<and> M \<le> 12 \<and> 1 \<le> D \<and> D \<le> 31"
    by linarith
qed

text \<open>
  Reading back what \<open>isoformat\<close> writes gives the date that was written, so the flow
  stores ISO dates only, and every store the menu loop reaches from one that holds ISO
  dates holds ISO dates.
\<close>

lemma is_digit_digit_char: "k < 10 \<Longrightarrow> is_digit (digit_char k)"
  using digit_cases [of k] by (auto simp add: is_digit_def digit_char_def)

lemma digit_val_digit_char: "k < 10 \<Longrightarrow> digit_val (digit_char k) = k"
  by (simp add: digit_val_def of_char_digit_char)

lemma fixed_width_2: "fixed_width 2 n = [digit_char (n div 10 mod 10), digit_char (n mod 10)]"
proof -
  have "(2::nat) = Suc (Suc 0)" by simp
  then show ?thesis by (simp only: fixed_width.simps append_Nil append_Cons)
qed

lemma fixed_width_4:
  "fixed_width 4 n = [digit_char (n div 10 div 10 div 10 mod 10), digit_char (n div 10 div 10 mod 10),
                      digit_char (n div 10 mod 10), digit_char (n mod 10)]"
proof -
  have "(4::nat) = Suc (Suc (Suc (Suc 0)))" by simp
  then show ?thesis by (simp only: fixed_width.simps append_Nil append_Cons)
qed

lemma four_digits_value:
  fixes n :: nat
  assumes "n < 10000"
  shows "1000 * (n div 10 div 10 div 10 mod 10) + 100 * (n div 10 div 10 mod 10) +
         10 * (n div 10 mod 10) + n mod 10 = n"
proof -
  define q1 where "q1 = n div 10"
  define q2 where "q2 = q1 div 10"
  define q3 where "q3 = q2 div 10"
  define r0 where "r0 = n mod 10"
  define r1 where "r1 = q1 mod 10"
  define r2 where "r2 = q2 mod 10"
  have e1: "n = 10 * q1 + r0" by (simp add: q1_def r0_def)
  have e2: "q1 = 10 * q2 + r1" by (simp add: q2_def r1_def)
  have e3: "q2 = 10 * q3 + r2" by (simp add: q3_def r2_def)
  have "q3 < 10" using assms by (simp add: q3_def q2_def q1_def div_mult2_eq)
  then have e4: "q3 mod 10 = q3" by simp
  have lin: "1000 * q3 + 100 * r2 + 10 * r1 + r0 = n"
    using e1 e2 e3 by linarith
  show ?thesis
    unfolding q1_def [symmetric] q2_def [symmetric] q3_def [symmetric]
      r0_def [symmetric] r1_def [symmetric] r2_def [symmetric] e4
    by (rule lin)
qed

lemma month_cases:
  assumes "1 \<le> M" and "M \<le> 12"
  shows "M \<in> set [1, 2, 3, 4, 5, 6, 7, 8, 9, 10, 11, 12 :: nat]"
proof -
  have "M \<in> set [1 ..< 13]" using assms by simp
  also have "[1 ..< 13] = [1, 2, 3, 4, 5, 6, 7, 8, 9, 10, 11, 12 :: nat]" by (simp add: upt_rec)
  finally show ?thesis .
qed

lemma month_text:
  assumes "1 \<le> M" and "M \<le> 12"
  shows "match_month (fixed_width 2 M) = Some M"
    and "takeWhile (\<lambda>c. c \<noteq> CHR ''-'') (fixed_width 2 M @ CHR ''-'' # ds) = fixed_width 2 M"
    and "dropWhile (\<lambda>c. c \<noteq> CHR ''-'') (fixed_width 2 M @ CHR ''-'' # ds) = CHR ''-'' # ds"
  using month_cases [OF assms]
  by (auto simp add: fixed_width_2 digit_char_def match_month_def digit_val_def)

lemma day_cases:
  assumes "1 \<le> D" and "D \<le> 31"
  shows "D \<in> set [1, 2, 3, 4, 5, 6, 7, 8, 9, 10, 11, 12, 13, 14, 15, 16, 17, 18, 19, 20, 21, 22,
                    23, 24, 25, 26, 27, 28, 29, 30, 31 :: nat]"
proof -
  have "D \<in> set [1 ..< 32]" using assms by simp
  also have "[1 ..< 32] = [1, 2, 3, 4, 5, 6, 7, 8, 9, 10, 11, 12, 13, 14, 15, 16, 17, 18, 19, 20,
      21, 22, 23, 24, 25, 26, 27, 28, 29, 30, 31 :: nat]" by (simp add: upt_rec)
  finally show ?thesis .
qed

lemma day_text_all:
  "list_all (\<lambda>D. match_day (fixed_width 2 D) = Some D)
     [1, 2, 3, 4, 5, 6, 7, 8, 9, 10, 11, 12, 13, 14, 15, 16, 17, 18, 19, 20, 21, 22,
      23, 24, 25, 26, 27, 28, 29, 30, 31]"
  by (simp add: fixed_width_2 digit_char_def match_day_def digit_val_def is_digit_def)

lemma day_text:
  assumes "1 \<le> D" and "D \<le> 31"
  shows "match_day (fixed_width 2 D) = Some D"
  using day_cases [OF assms] day_text_all
  by (simp only: list_all_iff)

lemma strptime_isoformat:
  assumes "1 \<le> Y" and "Y \<le> 9999" and "1 \<le> M" and "M \<le> 12" and "1 \<le> D"
    and "D \<le> days_in_month Y M"
  shows "strptime_ymd (isoformat (Y, M, D)) = Some (Y, M, D)"
proof -
  have d31: "D \<le> 31"
    using assms(6) days_in_month_le [of Y M] by linarith
  have b: "Y < 10000" "M < 100" "D < 100"
    using assms d31 by simp_all
  let ?rest = "fixed_width 2 M @ CHR ''-'' # fixed_width 2 D"
  have shape: "isoformat (Y, M, D) =
      digit_char (Y div 10 div 10 div 10 mod 10) # digit_char (Y div 10 div 10 mod 10) #
      digit_char (Y div 10 mod 10) # digit_char (Y mod 10) # CHR ''-'' # ?rest"
    by (simp add: isoformat_fixed_width [OF b] fixed_width_4)
  have year: "1000 * digit_val (digit_char (Y div 10 div 10 div 10 mod 10)) +
      100 * digit_val (digit_char (Y div 10 div 10 mod 10)) +
      10 * digit_val (digit_char (Y div 10 mod 10)) + digit_val (digit_char (Y mod 10)) = Y"
    by (simp only: digit_val_digit_char mod_less_divisor zero_less_numeral four_digits_value [OF b(1)])
  have digits: "is_digit (digit_char (Y div 10 div 10 div 10 mod 10))"
    "is_digit (digit_char (Y div 10 div 10 mod 10))"
    "is_digit (digit_char (Y div 10 mod 10))" "is_digit (digit_char (Y mod 10))"
    by (simp_all add: is_digit_digit_char)
  note m = month_text(1) [OF assms(3,4)]
    month_text(2) [OF assms(3,4), of "fixed_width 2 D"]
    month_text(3) [OF assms(3,4), of "fixed_width 2 D"]
  note d = day_text [OF assms(5) d31]
  show ?thesis
    unfolding shape strptime_ymd_def
    by (simp only: list.case digits simp_thms if_True m d option.case prod.case Let_def year
        assms(1) assms(6))
qed

lemma iso_date_isoformat:
  assumes "strptime_ymd s = Some ymd"
  shows "iso_date (isoformat ymd) = Some ymd"
proof -
  obtain Y M D where ymd: "ymd = (Y, M, D)" by (cases ymd) auto
  from strptime_ymd_valid [of s Y M D] assms ymd
  have "strptime_ymd (isoformat ymd) = Some ymd"
    unfolding ymd by (intro strptime_isoformat) simp_all
  then show ?thesis by (simp add: iso_date_def)
qed

lemma add_transaction_iso_dates:
  assumes "iso_dates db" and "iso_date d \<noteq> None"
  shows "iso_dates (snd (add_transaction d a ds cid ty db))"
  using add_transaction_cases [of d a ds cid ty db] assms
  by (auto simp add: iso_dates_def)

lemma add_transaction_flow_iso_dates:
  assumes "iso_dates db"
  shows "iso_dates (snd (add_transaction_flow d a ds c db))"
proof (cases "strptime_ymd (prompt d)")
  case None
  then show ?thesis using assms by (simp add: add_transaction_flow_def)
next
  case (Some ymd)
  show ?thesis
  proof (cases a)
    case None
    then show ?thesis using assms Some by (simp add: add_transaction_flow_def)
  next
    case (Some v)
    show ?thesis
    proof (cases "c = NotANumber")
      case True
      then show ?thesis
        using assms Some \<open>strptime_ymd (prompt d) = Some ymd\<close>
        by (simp add: add_transaction_flow_def Let_def)
    next
      case False
      have "snd (add_transaction_flow d a ds c db) =
          snd (add_transaction (isoformat ymd) \<bar>v\<bar> (prompt ds)
                (case c of Number k \<Rightarrow> Some k | _ \<Rightarrow> None)
                (if 0 \<le> v then ''income'' else ''expense'') db)"
        unfolding Some
        by (simp only: add_transaction_flow_unfold
            [OF \<open>strptime_ymd (prompt d) = Some ymd\<close> False] snd_report_of_add)
      moreover have "iso_date (isoformat ymd) \<noteq> None"
        using iso_date_isoformat [OF \<open>strptime_ymd (prompt d) = Some ymd\<close>] by simp
      ultimately show ?thesis
        using add_transaction_iso_dates [OF assms] by simp
    qed
  qed
qed

lemma delete_category_dates:
  "map date (transactions (snd (delete_category c db))) = map date (transactions db)"
  by (simp add: delete_category_def Let_def comp_def)

lemma iso_dates_map: "iso_dates db \<longleftrightarrow> (\<forall>d \<in> set (map date (transactions db)). iso_date d \<noteq> None)"
  by (simp add: iso_dates_def)

lemma run_choice_iso_dates:
  assumes "iso_dates db"
  shows "iso_dates (snd (run_choice ch db))"
proof (cases ch)
  case (AddCategory n)
  then show ?thesis
    using assms by (simp add: iso_dates_def add_category_flow_transactions)
next
  case (DeleteCategory c)
  show ?thesis
  proof (cases c)
    case None
    then show ?thesis using DeleteCategory assms by (simp add: delete_category_flow_def)
  next
    case (Some k)
    have "snd (delete_category_flow (Some k) db) = snd (delete_category k db)"
      by (simp add: delete_category_flow_def split: prod.splits bool.splits)
    then show ?thesis
      using DeleteCategory Some assms by (simp only: run_choice.simps snd_map_prod id_apply
          iso_dates_map delete_category_dates)
  qed
next
  case (AddTransaction d a ds c)
  then show ?thesis using add_transaction_flow_iso_dates [OF assms] by simp
next
  case (DeleteTransaction i)
  show ?thesis
  proof (cases i)
    case None
    then show ?thesis using DeleteTransaction assms by (simp add: delete_transaction_flow_def)
  next
    case (Some k)
    have "snd (delete_transaction_flow (Some k) db) = snd (delete_transaction k db)"
      by (simp add: delete_transaction_flow_def split: prod.splits bool.splits)
    then show ?thesis
      using DeleteTransaction Some assms delete_transaction_subset [of k db]
      by (auto simp add: iso_dates_def)
  qed
next
  case ReadOnly
  then show ?thesis using assms by simp
qed

lemma main_iso_dates: "iso_dates db \<Longrightarrow> iso_dates (main cs db)"
proof (induction cs arbitrary: db)
  case Nil
  then show ?case by simp
next
  case (Cons ch cs)
  have step: "iso_dates (snd (run_choice ch db))"
    by (rule run_choice_iso_dates [OF Cons.prems])
  from main_step [of ch cs db] show ?case
  proof
    assume "main (ch # cs) db = snd (run_choice ch db)"
    then show ?thesis using step by simp
  next
    assume "main (ch # cs) db = main cs (snd (run_choice ch db))"
    then show ?thesis using Cons.IH [OF step] by simp
  qed
qed

lemma in_bounds_calendar:
  assumes "0 \<le> y" and "1 \<le> m" and "m \<le> 12" and "y < 9999 \<or> (y = 9999 \<and> m < 12)"
    and "iso_date (date t) \<noteq> None"
  shows "in_bounds y m t \<longleftrightarrow> in_calendar_month y m t"
proof -
  from assms(5) obtain Y M D where iso: "iso_date (date t) = Some (Y, M, D)"
    by (cases "iso_date (date t)") auto
  note v = iso_date_Some [OF iso]
  from v(2) have "in_bounds y m t \<longleftrightarrow> int Y = y \<and> int M = m"
    by (intro month_interval_exact [OF assms(1-4) v(1)]) simp_all
  then show ?thesis
    by (simp add: in_calendar_month_def iso)
qed

lemma bounded_txns_calendar:
  assumes "0 \<le> y" and "1 \<le> m" and "m \<le> 12" and "y < 9999 \<or> (y = 9999 \<and> m < 12)"
    and "iso_dates db"
  shows "bounded_txns y m db = calendar_month_txns y m db"
  unfolding bounded_txns_def calendar_month_txns_def
  using assms(5) by (intro filter_cong refl in_bounds_calendar [OF assms(1-4)])
    (simp add: iso_dates_def)

text \<open>
  The summary of a month, for the years and months above, in a store whose category
  ids are distinct and whose dates are all ISO dates: the rows are exactly the rows
  \<open>(g, income total, expense total)\<close> for the resolved names \<open>g\<close> that occur among the
  transactions of that calendar month, each name once; a name that does not occur gets
  no row, and the summary is empty exactly when the month has no transaction.
\<close>

lemma monthly_summary_groups:
  assumes "distinct (map cat_id (categories db))"
    and "iso_dates db"
    and "0 \<le> y" and "1 \<le> m" and "m \<le> 12" and "y < 9999 \<or> (y = 9999 \<and> m < 12)"
  shows "set (monthly_summary y m db) =
           group_row db (calendar_month_txns y m db) `
             resolved_name db ` set (calendar_month_txns y m db)"
    and "distinct (map fst (monthly_summary y m db))"
    and "monthly_summary y m db = [] \<longleftrightarrow> calendar_month_txns y m db = []"
  using monthly_summary_of_bounded [OF assms(1), of y m]
  by (simp_all only: bounded_txns_calendar [OF assms(3-6) assms(2)])

text \<open>
  Every store the program reaches from a fresh one meets the two hypotheses, and holds
  non-negative amounts only.
\<close>

lemma reachable_store:
  "distinct (map cat_id (categories (main cs fresh_db))) \<and>
   iso_dates (main cs fresh_db) \<and> amounts_nonneg (main cs fresh_db)"
proof -
  have "categories fresh_db = []" "transactions fresh_db = []"
    by (simp_all add: fresh_db_def initialize_schema_def empty_db_def)
  then have "distinct (map cat_id (categories fresh_db))" "iso_dates fresh_db"
    "amounts_nonneg fresh_db"
    by (simp_all add: iso_dates_def amounts_nonneg_def)
  then show ?thesis
    by (simp add: main_distinct_ids main_iso_dates main_nonneg)
qed

lemma monthly_summary_groups_example:
  "calendar_month_txns 2024 3 groceries_db = [groceries] \<and>
   group_row groceries_db [groceries] (resolved_name groceries_db groceries) =
     (Some ''Food'', 0, 42.5) \<and>
   monthly_summary 2024 3 groceries_db = [(Some ''Food'', 0, 42.5)] \<and>
   calendar_month_txns 2024 4 groceries_db = [] \<and>
   monthly_summary 2024 4 groceries_db = []"
proof -
  have d: "distinct (map cat_id (categories groceries_db))"
    by (simp add: groceries_db_rows)
  have iso: "iso_date ''2024-03-15'' = Some (2024, 3, 15)"
    by (simp add: iso_date_def flow_eval)
  then have all: "iso_dates groceries_db"
    by (simp add: iso_dates_def groceries_db_rows groceries_def)
  have t3: "calendar_month_txns 2024 3 groceries_db = [groceries]"
    by (simp add: calendar_month_txns_def in_calendar_month_def groceries_db_rows groceries_def
        iso)
  have t4: "calendar_month_txns 2024 4 groceries_db = []"
    by (simp add: calendar_month_txns_def in_calendar_month_def groceries_db_rows groceries_def
        iso)
  have s3: "monthly_summary 2024 3 groceries_db = [(Some ''Food'', 0, 42.5)]"
    by (simp add: summary_eval groceries_db_rows groceries_def)
  have s4: "monthly_summary 2024 4 groceries_db = []"
    using monthly_summary_groups(3) [OF d all, of 2024 4] t4 by simp
  have "group_row groceries_db [groceries] (resolved_name groceries_db groceries) =
     (Some ''Food'', 0, 42.5)"
    using monthly_summary_groups(1) [OF d all, of 2024 3] s3 t3 by simp
  then show ?thesis
    using t3 s3 t4 s4 by (simp only: simp_thms)
qed

text \<open>
  C5. The claim fails for December 9999, by the same defect as C1. The store
  \<open>last_december_db\<close> holds one transaction, dated 9999-12-31: it is a transaction of
  the calendar month December 9999, its category reference is null, so it belongs to
  the uncategorized bucket, whose row would be \<open>(None, 0, 10)\<close>. The summary of that
  month has no row at all: the transaction of the month is not grouped, and the result
  is empty although a transaction falls in the month.
\<close>

theorem december_9999_not_grouped:
  "transactions last_december_db = [fireworks] \<and>
   iso_date (date fireworks) = Some (9999, 12, 31) \<and>
   calendar_month_txns 9999 12 last_december_db = [fireworks] \<and>
   resolved_name last_december_db fireworks = None \<and>
   group_row last_december_db (calendar_month_txns 9999 12 last_december_db) None =
     (None, 0, 10) \<and>
   monthly_summary 9999 12 last_december_db = []"
proof -
  have rows: "transactions last_december_db = [fireworks]"
    by (simp add: last_december_rows fireworks_def)
  have iso: "iso_date (date fireworks) = Some (9999, 12, 31)"
    by (simp add: fireworks_def iso_date_def flow_eval)
  have month: "calendar_month_txns 9999 12 last_december_db = [fireworks]"
    by (simp add: calendar_month_txns_def in_calendar_month_def rows iso)
  have name: "resolved_name last_december_db fireworks = None"
    by (simp add: resolved_name_def fireworks_def)
  have row: "group_row last_december_db (calendar_month_txns 9999 12 last_december_db) None =
     (None, 0, 10)"
    by (simp add: month group_row_def total_def name) (simp add: fireworks_def)
  have "monthly_summary 9999 12 last_december_db = []"
    by (simp add: summary_eval last_december_rows)
  then show ?thesis
    using rows iso month name row by (simp only: simp_thms)
qed

text \<open>
  C1. The claim fails for December 9999. The flow accepts the date 9999-12-31 and
  stores it; the bounds \<open>monthly_summary 9999 12\<close> computes are "9999-12-01" and
  "10000-01-01", the second of which sorts before the first as text; so no date lies
  between them, and the summary of that month is empty although the store holds a
  transaction of 31 December 9999. No other month's summary counts it either.
\<close>

theorem december_9999_summary_empty:
  "add_transaction_flow ''9999-12-31'' (Some (- 10)) ''Fireworks'' Blank fresh_db =
     (TransactionRecorded 1, last_december_db) \<and>
   map date (transactions last_december_db) = [''9999-12-31''] \<and>
   month_bounds 9999 12 = (''9999-12-01'', ''10000-01-01'') \<and>
   \<not> (fst (month_bounds 9999 12) \<le> date (hd (transactions last_december_db)) \<and>
      date (hd (transactions last_december_db)) < snd (month_bounds 9999 12)) \<and>
   monthly_summary 9999 12 last_december_db = [] \<and>
   monthly_summary 9999 11 last_december_db = [] \<and>
   monthly_summary 10000 1 last_december_db = []"
proof -
  have "add_transaction_flow ''9999-12-31'' (Some (- 10)) ''Fireworks'' Blank fresh_db =
     (TransactionRecorded 1, last_december_db)"
    by (simp add: last_december_db_def flow_eval)
  moreover have "map date (transactions last_december_db) = [''9999-12-31'']"
    by (simp add: last_december_rows)
  moreover have "month_bounds 9999 12 = (''9999-12-01'', ''10000-01-01'')"
    by (simp add: summary_eval)
  moreover have
    "\<not> (fst (month_bounds 9999 12) \<le> date (hd (transactions last_december_db)) \<and>
        date (hd (transactions last_december_db)) < snd (month_bounds 9999 12))"
    by (simp add: summary_eval last_december_rows)
  moreover have "monthly_summary 9999 12 last_december_db = []"
    by (simp add: summary_eval last_december_rows)
  moreover have "monthly_summary 9999 11 last_december_db = []"
    by (simp add: summary_eval last_december_rows)
  moreover have "monthly_summary 10000 1 last_december_db = []"
    by (simp add: summary_eval last_december_rows)
  ultimately show ?thesis by (simp only: simp_thms)
qed

end
